theory Spec2Isabelle
  imports Complex_Main
begin

section \<open>Strings\<close>

text \<open>
  The TypeScript sources work on JavaScript strings.  They are modelled as \<^typ>\<open>string\<close>,
  one \<^typ>\<open>char\<close> per UTF-16 code unit, so the model covers the texts whose code units lie
  in the Latin-1 range 0..255 (which holds the accented letters the name patterns list).
  Character classes are written through the code \<open>of_char c\<close> of a character.
\<close>

definition code :: "char \<Rightarrow> nat" where
  "code c = of_char c"

text \<open>The class \<open>\d\<close> (and \<open>[0-9]\<close>).\<close>

definition is_digit :: "char \<Rightarrow> bool" where
  "is_digit c = (48 \<le> code c \<and> code c \<le> 57)"

text \<open>The class \<open>[1-9]\<close>.\<close>

definition is_digit19 :: "char \<Rightarrow> bool" where
  "is_digit19 c = (49 \<le> code c \<and> code c \<le> 57)"

text \<open>The class \<open>[A-Za-z]\<close>.\<close>

definition is_alpha :: "char \<Rightarrow> bool" where
  "is_alpha c = ((65 \<le> code c \<and> code c \<le> 90) \<or> (97 \<le> code c \<and> code c \<le> 122))"

text \<open>The class \<open>\w\<close>, which decides the word boundary \<open>\b\<close>.\<close>

definition is_word :: "char \<Rightarrow> bool" where
  "is_word c = (is_alpha c \<or> is_digit c \<or> c = CHR ''_'')"

text \<open>
  The class \<open>\s\<close>, which is also what \<open>trim\<close> strips: tab, line feed, vertical tab, form
  feed, carriage return, space and the no-break space.
\<close>

definition is_space :: "char \<Rightarrow> bool" where
  "is_space c = ((9 \<le> code c \<and> code c \<le> 13) \<or> code c = 32 \<or> code c = 160)"

definition trim :: "string \<Rightarrow> string" where
  "trim s = rev (dropWhile is_space (rev (dropWhile is_space s)))"

text \<open>\<open>toLowerCase\<close>: the letters A-Z and the accented capitals of Latin-1 move up by 32.\<close>

definition lower_char :: "char \<Rightarrow> char" where
  "lower_char c =
     (if (65 \<le> code c \<and> code c \<le> 90) \<or> (192 \<le> code c \<and> code c \<le> 222 \<and> code c \<noteq> 215)
      then char_of (code c + 32) else c)"

definition toLowerCase :: "string \<Rightarrow> string" where
  "toLowerCase s = map lower_char s"

text \<open>\<open>s.substring(a, b)\<close> for \<open>a \<le> b\<close>, and \<open>s.substring(a)\<close>.\<close>

definition substring :: "nat \<Rightarrow> nat \<Rightarrow> string \<Rightarrow> string" where
  "substring a b s = take (b - a) (drop a s)"

definition substring_from :: "nat \<Rightarrow> string \<Rightarrow> string" where
  "substring_from a s = drop a s"

text \<open>\<open>s.charAt(i)\<close> is the empty string out of range.\<close>

definition charAt :: "string \<Rightarrow> nat \<Rightarrow> string" where
  "charAt s i = (if i < length s then [s ! i] else [])"

definition startsWith :: "string \<Rightarrow> string \<Rightarrow> bool" where
  "startsWith s p = (take (length p) s = p)"

definition endsWith :: "string \<Rightarrow> string \<Rightarrow> bool" where
  "endsWith s p = (length p \<le> length s \<and> drop (length s - length p) s = p)"

text \<open>
  \<open>parseInt\<close> on a string of decimal digits: the value of the leading digits, and NaN
  (\<open>None\<close>) when there is none.  The sources call it on digit strings only.
\<close>

definition parseInt :: "string \<Rightarrow> nat option" where
  "parseInt s =
     (let ds = takeWhile is_digit s
      in if ds = [] then None else Some (foldl (\<lambda>a c. 10 * a + (code c - 48)) 0 ds))"

section \<open>Regular expressions\<close>

text \<open>
  The regular expressions of the sources use character classes, sequence, alternation,
  the greedy quantifiers \<open>?\<close>, \<open>*\<close>, \<open>+\<close>, \<open>{n}\<close>, \<open>{n,m}\<close>, \<open>{n,}\<close>, the assertions \<open>\b\<close>, \<open>^\<close>,
  \<open>$\<close>, and groups whose captures are never read.  A matcher state is the text before the current
  position, reversed, and the text from the position on.  \<open>run r st\<close> lists the states in
  which a match of \<open>r\<close> started at \<open>st\<close> can end, in the order in which a backtracking
  matcher tries them; the head of the list is the match JavaScript reports.  An iteration
  of a quantifier that consumes nothing is discarded, as in ECMAScript.
\<close>

datatype rx =
  Eps | Cls "char \<Rightarrow> bool" | Seq rx rx | Opt rx | Star rx | WordB | Bol | Eol | Alt rx rx

type_synonym mstate = "string \<times> string"

definition at_word_boundary :: "mstate \<Rightarrow> bool" where
  "at_word_boundary st =
     ((case fst st of [] \<Rightarrow> False | c # _ \<Rightarrow> is_word c) \<noteq>
      (case snd st of [] \<Rightarrow> False | c # _ \<Rightarrow> is_word c))"

fun run :: "rx \<Rightarrow> mstate \<Rightarrow> mstate list" where
  "run Eps st = [st]"
| "run (Cls P) st = (case snd st of [] \<Rightarrow> [] | c # t \<Rightarrow> if P c then [(c # fst st, t)] else [])"
| "run (Seq a b) st = concat (map (run b) (run a st))"
| "run (Opt a) st = filter (\<lambda>st'. length (snd st') < length (snd st)) (run a st) @ [st]"
| "run (Star a) st =
     concat (map (\<lambda>st'. if length (snd st') < length (snd st) then run (Star a) st' else [])
                 (run a st)) @ [st]"
| "run WordB st = (if at_word_boundary st then [st] else [])"
| "run Bol st = (if fst st = [] then [st] else [])"
| "run Eol st = (if snd st = [] then [st] else [])"
| "run (Alt a b) st = run a st @ run b st"

text \<open>A literal character, \<open>r+\<close>, \<open>r{n}\<close>, \<open>r{n,m}\<close> written \<open>r{n}\<close> then \<open>m - n\<close> optional
  copies, \<open>r{n,}\<close>, and the sequence of a list of expressions.\<close>

definition rx_chr :: "char \<Rightarrow> rx" where
  "rx_chr c = Cls (\<lambda>x. x = c)"

definition rx_plus :: "rx \<Rightarrow> rx" where
  "rx_plus r = Seq r (Star r)"

fun rx_rep :: "nat \<Rightarrow> rx \<Rightarrow> rx" where
  "rx_rep 0 r = Eps"
| "rx_rep (Suc n) r = Seq r (rx_rep n r)"

fun rx_upto :: "nat \<Rightarrow> rx \<Rightarrow> rx" where
  "rx_upto 0 r = Eps"
| "rx_upto (Suc n) r = Opt (Seq r (rx_upto n r))"

definition rx_range :: "nat \<Rightarrow> nat \<Rightarrow> rx \<Rightarrow> rx" where
  "rx_range n m r = Seq (rx_rep n r) (rx_upto (m - n) r)"

definition rx_atleast :: "nat \<Rightarrow> rx \<Rightarrow> rx" where
  "rx_atleast n r = Seq (rx_rep n r) (Star r)"

fun rx_seq :: "rx list \<Rightarrow> rx" where
  "rx_seq [] = Eps"
| "rx_seq [r] = r"
| "rx_seq (r # rs) = Seq r (rx_seq rs)"

text \<open>
  \<open>text.matchAll(r)\<close> for a global expression: the matched substrings from left to right.
  The search restarts where the last match ended, one character further after an empty
  match.
\<close>

function matchAll :: "rx \<Rightarrow> mstate \<Rightarrow> string list" where
  "matchAll r st =
     (case run r st of
        [] \<Rightarrow> (case snd st of [] \<Rightarrow> [] | c # t \<Rightarrow> matchAll r (c # fst st, t))
      | st' # _ \<Rightarrow>
          (let m = take (length (snd st) - length (snd st')) (snd st) in
           if length (snd st') < length (snd st) then m # matchAll r st'
           else (case snd st of [] \<Rightarrow> [m] | c # t \<Rightarrow> m # matchAll r (c # fst st, t))))"
  by pat_completeness auto
termination
  by (relation "measure (\<lambda>(r, st). length (snd st))") auto

text \<open>\<open>r.test(s)\<close> for an expression without the global flag: is there a match at some
  position of \<open>s\<close>.\<close>

fun search :: "rx \<Rightarrow> mstate \<Rightarrow> bool" where
  "search r (p, []) = (run r (p, []) \<noteq> [])"
| "search r (p, c # t) = (run r (p, c # t) \<noteq> [] \<or> search r (c # p, t))"

definition rx_test :: "rx \<Rightarrow> string \<Rightarrow> bool" where
  "rx_test r s = search r ([], s)"

section \<open>PatternMatcher: phone numbers\<close>

text \<open>The four \<open>PHONE_PATTERNS\<close>, in the order of the object literal.\<close>

definition phone_local :: "rx list" where
  "phone_local = [Opt (rx_chr CHR ''9''), rx_rep 4 (Cls is_digit), Opt (rx_chr CHR ''-''),
                  rx_rep 4 (Cls is_digit)]"

definition withParentheses :: rx where
  "withParentheses =
     rx_seq ([rx_chr CHR ''('', rx_rep 2 (Cls is_digit19), rx_chr CHR '')'', Star (Cls is_space)]
             @ phone_local)"

definition withSpace :: rx where
  "withSpace = rx_seq ([rx_rep 2 (Cls is_digit19), rx_plus (Cls is_space)] @ phone_local)"

definition international :: rx where
  "international =
     rx_seq ([rx_chr CHR ''+'', rx_chr CHR ''5'', rx_chr CHR ''5'', Star (Cls is_space),
              rx_rep 2 (Cls is_digit19), Star (Cls is_space)] @ phone_local)"

definition general :: rx where
  "general =
     rx_seq ([Opt (rx_seq [rx_chr CHR ''+'', rx_chr CHR ''5'', rx_chr CHR ''5'', Star (Cls is_space)]),
              Opt (rx_seq [Opt (rx_chr CHR ''(''), rx_rep 2 (Cls is_digit19), Opt (rx_chr CHR '')''),
                           Star (Cls is_space)])]
             @ phone_local)"

definition PHONE_PATTERNS :: "rx list" where
  "PHONE_PATTERNS = [withParentheses, withSpace, international, general]"

text \<open>\<open>phone.replace(/\D/g, '')\<close> keeps the digits.\<close>

definition digits_of :: "string \<Rightarrow> string" where
  "digits_of s = filter is_digit s"

text \<open>A comparison with NaN is false, so an area code that is not a number passes the
  range check, as in the source.\<close>

definition area_out_of_range :: "nat option \<Rightarrow> bool" where
  "area_out_of_range a = (case a of None \<Rightarrow> False | Some n \<Rightarrow> n < 11 \<or> n > 99)"

definition validatePhone :: "string \<Rightarrow> bool" where
  "validatePhone phone =
     (let digits = digits_of phone in
      if length digits < 10 \<or> length digits > 11 then False
      else if area_out_of_range (parseInt (substring 0 2 digits)) then False
      else if length digits = 11 then charAt digits 2 = ''9''
      else if length digits = 10 then
        charAt digits 2 \<noteq> ''9'' \<and> charAt digits 2 \<noteq> ''0'' \<and> charAt digits 2 \<noteq> ''1''
      else False)"

definition strip_country :: "string \<Rightarrow> string" where
  "strip_country digits =
     (if length digits = 13 \<and> startsWith digits ''55'' then substring_from 2 digits
      else if length digits = 12 \<and> startsWith digits ''55'' then substring_from 2 digits
      else digits)"

definition formatPhone :: "string \<Rightarrow> string option" where
  "formatPhone phone =
     (let digits = strip_country (digits_of phone) in
      if length digits < 10 \<or> length digits > 11 then None
      else if area_out_of_range (parseInt (substring 0 2 digits)) then None
      else if length digits = 11 then
        (if charAt digits 2 \<noteq> ''9'' then None
         else Some (''('' @ substring 0 2 digits @ '') '' @ substring 2 7 digits @ ''-''
                    @ substring_from 7 digits))
      else if length digits = 10 then
        (if charAt digits 2 = ''9'' \<or> charAt digits 2 = ''0'' \<or> charAt digits 2 = ''1'' then None
         else Some (''('' @ substring 0 2 digits @ '') '' @ substring 2 6 digits @ ''-''
                    @ substring_from 6 digits))
      else None)"

text \<open>\<open>text.replace(/\s+/g, ' ')\<close>: every run of white space becomes one space.\<close>

function collapse_spaces :: "string \<Rightarrow> string" where
  "collapse_spaces [] = []"
| "collapse_spaces (c # s) =
     (if is_space c then CHR '' '' # collapse_spaces (dropWhile is_space s)
      else c # collapse_spaces s)"
  by pat_completeness auto
termination
  by (relation "measure length") (auto simp: length_dropWhile_le less_Suc_eq_le)

text \<open>The body of the loop over the matches of one pattern: a match is kept when it
  formats, validates and is new.\<close>

definition add_phone :: "string list \<Rightarrow> string \<Rightarrow> string list" where
  "add_phone phones m =
     (case formatPhone m of
        None \<Rightarrow> phones
      | Some phone \<Rightarrow>
          if phone \<noteq> [] \<and> validatePhone phone \<and> phone \<notin> set phones then phones @ [phone]
          else phones)"

definition extractPhones :: "string \<Rightarrow> string list" where
  "extractPhones text =
     (if text = [] then []
      else let cleanText = trim (collapse_spaces text)
           in foldl (\<lambda>phones pattern. foldl add_phone phones (matchAll pattern ([], cleanText)))
                    [] PHONE_PATTERNS)"

section \<open>PatternMatcher: e-mail addresses\<close>

text \<open>The classes \<open>[A-Za-z0-9._%+-]\<close> and \<open>[A-Za-z0-9.-]\<close>.\<close>

definition is_local :: "char \<Rightarrow> bool" where
  "is_local c = (is_alpha c \<or> is_digit c \<or> c = CHR ''.'' \<or> c = CHR ''_'' \<or> c = CHR ''%''
                 \<or> c = CHR ''+'' \<or> c = CHR ''-'')"

definition is_domain :: "char \<Rightarrow> bool" where
  "is_domain c = (is_alpha c \<or> is_digit c \<or> c = CHR ''.'' \<or> c = CHR ''-'')"

text \<open>The body shared by \<open>EMAIL_PATTERN\<close> and the expression of \<open>validateEmail\<close>.\<close>

definition email_body :: "rx list" where
  "email_body = [rx_plus (Cls is_local), rx_chr CHR ''@'', rx_plus (Cls is_domain),
                 rx_chr CHR ''.'', rx_atleast 2 (Cls is_alpha)]"

definition EMAIL_PATTERN :: rx where
  "EMAIL_PATTERN = rx_seq ([WordB] @ email_body @ [WordB])"

definition emailRegex :: rx where
  "emailRegex = rx_seq ([Bol] @ email_body @ [Eol])"

text \<open>\<open>s.split(c)\<close> for a one-character separator, and \<open>s.includes(t)\<close>.\<close>

fun split_on :: "char \<Rightarrow> string \<Rightarrow> string list" where
  "split_on c [] = [[]]"
| "split_on c (x # xs) =
     (if x = c then [] # split_on c xs
      else (case split_on c xs of [] \<Rightarrow> [[x]] | w # ws \<Rightarrow> (x # w) # ws))"

fun includes_str :: "string \<Rightarrow> string \<Rightarrow> bool" where
  "includes_str [] t = (t = [])"
| "includes_str (x # xs) t = (startsWith (x # xs) t \<or> includes_str xs t)"

definition bad_domain_part :: "string \<Rightarrow> bool" where
  "bad_domain_part part =
     (length part = 0 \<or> length part > 63 \<or> startsWith part ''-'' \<or> endsWith part ''-'')"

definition validateEmail :: "string \<Rightarrow> bool" where
  "validateEmail email =
     (if \<not> rx_test emailRegex email then False
      else let parts = split_on CHR ''@'' email in
        if length parts \<noteq> 2 then False
        else let localPart = parts ! 0; domain = parts ! 1 in
          if length localPart = 0 \<or> length localPart > 64 then False
          else if startsWith localPart ''.'' \<or> endsWith localPart ''.'' then False
          else if includes_str localPart ''..'' then False
          else if length domain = 0 \<or> length domain > 253 then False
          else if startsWith domain ''.'' \<or> endsWith domain ''.''
                  \<or> startsWith domain ''-'' \<or> endsWith domain ''-'' then False
          else if \<not> includes_str domain ''.'' then False
          else let domainParts = split_on CHR ''.'' domain in
            if list_ex bad_domain_part domainParts then False
            else if length (last domainParts) < 2 then False
            else True)"

definition add_email :: "string list \<Rightarrow> string \<Rightarrow> string list" where
  "add_email emails m =
     (let email = toLowerCase m
      in if validateEmail email \<and> email \<notin> set emails then emails @ [email] else emails)"

definition extractEmails :: "string \<Rightarrow> string list" where
  "extractEmails text =
     (if text = [] then [] else foldl add_email [] (matchAll EMAIL_PATTERN ([], text)))"

section \<open>PatternMatcher: names\<close>

text \<open>The classes of the name patterns: capitals and small letters with the accented
  letters of Portuguese that the source lists.\<close>

definition is_upper_pt :: "char \<Rightarrow> bool" where
  "is_upper_pt c = ((65 \<le> code c \<and> code c \<le> 90)
      \<or> code c \<in> set [193, 192, 194, 195, 201, 202, 205, 211, 212, 213, 218, 199])"

definition is_lower_pt :: "char \<Rightarrow> bool" where
  "is_lower_pt c = ((97 \<le> code c \<and> code c \<le> 122)
      \<or> code c \<in> set [225, 224, 226, 227, 233, 234, 237, 243, 244, 245, 250, 231])"

text \<open>\<open>toUpperCase\<close> on the letters whose capital is a Latin-1 character (all but the
  sharp s, the y with diaeresis and the micro sign, which are left as they are here).\<close>

definition upper_char :: "char \<Rightarrow> char" where
  "upper_char c =
     (if (97 \<le> code c \<and> code c \<le> 122) \<or> (224 \<le> code c \<and> code c \<le> 254 \<and> code c \<noteq> 247)
      then char_of (code c - 32) else c)"

definition toUpperCase :: "string \<Rightarrow> string" where
  "toUpperCase s = map upper_char s"

definition NAME_PARTICLES :: "string list" where
  "NAME_PARTICLES = [''da'', ''das'', ''de'', ''do'', ''dos'', ''del'', ''della'', ''van'', ''von'',
                     ''le'', ''la'', ''el'']"

text \<open>\<open>text.split(/\s+/)\<close> and \<open>text.split(' ')\<close>.\<close>

lemma split_spaces_shorter:
  assumes "dropWhile (\<lambda>c. \<not> is_space c) s \<noteq> []"
  shows "length (dropWhile is_space (dropWhile (\<lambda>c. \<not> is_space c) s)) < length s"
proof -
  obtain c t where ct: "dropWhile (\<lambda>c. \<not> is_space c) s = c # t"
    using assms by (cases "dropWhile (\<lambda>c. \<not> is_space c) s") auto
  have "is_space (hd (dropWhile (\<lambda>c. \<not> is_space c) s))"
    using hd_dropWhile [OF assms] by simp
  then have "is_space c" by (simp add: ct)
  then have "length (dropWhile is_space (c # t)) \<le> length t"
    by (simp add: length_dropWhile_le)
  moreover have "length (c # t) \<le> length s"
    unfolding ct [symmetric] by (rule length_dropWhile_le)
  ultimately show ?thesis by (simp add: ct)
qed

function split_spaces :: "string \<Rightarrow> string list" where
  "split_spaces s =
     (let w = takeWhile (\<lambda>c. \<not> is_space c) s; r = dropWhile (\<lambda>c. \<not> is_space c) s
      in if r = [] then [w] else w # split_spaces (dropWhile is_space r))"
  by pat_completeness auto
termination
  by (relation "measure length") (auto simp: split_spaces_shorter)

text \<open>\<open>words[i].replace(/[^\w\s...]/g, '')\<close>: what is not a word character, white space
  or a listed accented letter goes.\<close>

definition clean_word :: "string \<Rightarrow> string" where
  "clean_word w =
     filter (\<lambda>c. is_word c \<or> is_space c
                  \<or> code c \<in> set [225, 224, 226, 227, 233, 234, 237, 243, 244, 245, 250, 231,
                                    193, 192, 194, 195, 201, 202, 205, 211, 212, 213, 218, 199]) w"

definition capitalized :: rx where
  "capitalized = rx_seq [Bol, Cls is_upper_pt, rx_plus (Cls is_lower_pt), Eol]"

definition nonNameWords :: "string list" where
  "nonNameWords =
     [''contato'', ''contatos'', ''email'', ''telefone'', ''phone'',
      ''endere'' @ [CHR 0xE7] @ ''o'', ''address'', ''rua'', ''street'', ''cidade'', ''city'',
      ''gerente'', ''diretor'', ''respons'' @ [CHR 0xE1] @ ''vel'', ''manager'', ''director'',
      ''contact'', ''info'', ''information'', ''empresa'', ''company'']"

definition isNameWord :: "string \<Rightarrow> bool" where
  "isNameWord word =
     (if word = [] \<or> length word < 2 then False
      else let lowerWord = toLowerCase word in
        if lowerWord \<in> set NAME_PARTICLES then True
        else if \<not> rx_test (rx_seq [Bol, Cls is_upper_pt]) word then False
        else if lowerWord \<in> set nonNameWords then False
        else rx_test capitalized word \<and> length word \<ge> 2)"

definition join_with :: "string \<Rightarrow> string list \<Rightarrow> string" where
  "join_with sep ws = (case ws of [] \<Rightarrow> [] | w # rest \<Rightarrow> w @ concat (map (\<lambda>x. sep @ x) rest))"

definition format_word :: "nat \<Rightarrow> string \<Rightarrow> string" where
  "format_word index word =
     (let lowerWord = toLowerCase word
      in if index > 0 \<and> lowerWord \<in> set NAME_PARTICLES then lowerWord
         else toUpperCase (charAt word 0) @ toLowerCase (drop 1 word))"

definition formatName :: "string \<Rightarrow> string option" where
  "formatName nm =
     (let trimmedName = collapse_spaces (trim nm)
      in if trimmedName = [] then None
         else let words = split_on CHR '' '' trimmedName
              in Some (join_with '' '' (map (\<lambda>(index, word). format_word index word)
                                           (zip [0..<length words] words))))"

text \<open>A word of the list between two word boundaries: \<open>\b(w1|w2|...)\b\<close>.\<close>

definition rx_word :: "string \<Rightarrow> rx" where
  "rx_word w = rx_seq (map rx_chr w)"

fun rx_alt :: "rx list \<Rightarrow> rx" where
  "rx_alt [] = Eps"
| "rx_alt [r] = r"
| "rx_alt (r # rs) = Alt r (rx_alt rs)"

definition rx_any_word :: "string list \<Rightarrow> rx" where
  "rx_any_word ws = rx_seq [WordB, rx_alt (map rx_word ws), WordB]"

definition invalidPatterns :: "rx list" where
  "invalidPatterns =
     [rx_any_word [''email'', ''telefone'', ''phone'', ''contact'', ''contato'',
                   ''endere'' @ [CHR 0xE7] @ ''o'', ''address'', ''rua'', ''street'', ''cidade'',
                   ''city''],
      rx_any_word [''segunda'', ''ter'' @ [CHR 0xE7] @ ''a'', ''quarta'', ''quinta'', ''sexta'',
                   ''s'' @ [CHR 0xE1] @ ''bado'', ''domingo''],
      rx_any_word [''janeiro'', ''fevereiro'', ''mar'' @ [CHR 0xE7] @ ''o'', ''abril'', ''maio'',
                   ''junho'', ''julho'', ''agosto'', ''setembro'', ''outubro'', ''novembro'',
                   ''dezembro''],
      rx_any_word [''monday'', ''tuesday'', ''wednesday'', ''thursday'', ''friday'', ''saturday'',
                   ''sunday''],
      rx_any_word [''january'', ''february'', ''march'', ''april'', ''may'', ''june'', ''july'',
                   ''august'', ''september'', ''october'', ''november'', ''december'']]"

definition bad_name_word :: "string \<Rightarrow> bool" where
  "bad_name_word word =
     (if toLowerCase word \<in> set NAME_PARTICLES then False
      else if length word < 2 then True
      else if length word < 3 then True
      else if \<not> rx_test (rx_seq [Bol, Cls is_upper_pt]) word then True
      else if \<not> rx_test capitalized word then True
      else False)"

definition validateName :: "string \<Rightarrow> bool" where
  "validateName nm =
     (let trimmedName = trim nm in
      if length trimmedName < 2 then False
      else let words = split_spaces trimmedName in
        if length words < 2 then False
        else if list_ex bad_name_word words then False
        else if list_ex (\<lambda>pattern. rx_test pattern (toLowerCase trimmedName)) invalidPatterns
        then False
        else True)"

text \<open>The loop of \<open>extractNames\<close>: a name word opens a run that takes the name words that
  follow; the scan goes on behind the run.\<close>

definition add_name :: "string list \<Rightarrow> string list \<Rightarrow> string list" where
  "add_name names currentName =
     (if length currentName \<ge> 2 then
        (case formatName (join_with '' '' currentName) of
           None \<Rightarrow> names
         | Some formattedName \<Rightarrow>
             if formattedName \<noteq> [] \<and> validateName formattedName \<and> formattedName \<notin> set names
             then names @ [formattedName] else names)
      else names)"

function scan_names :: "string list \<Rightarrow> string list \<Rightarrow> string list" where
  "scan_names names [] = names"
| "scan_names names (word # rest) =
     (if isNameWord word
      then scan_names (add_name names (word # takeWhile isNameWord rest)) (dropWhile isNameWord rest)
      else scan_names names rest)"
  by pat_completeness auto
termination
  by (relation "measure (\<lambda>(names, ws). length ws)") (auto simp: length_dropWhile_le less_Suc_eq_le)

definition extractNames :: "string \<Rightarrow> string list" where
  "extractNames text =
     (if text = [] then [] else scan_names [] (map clean_word (split_spaces text)))"

section \<open>ContactData\<close>

text \<open>
  A \<open>Date\<close> holds a time value in milliseconds or is invalid; time values beyond
  8.64e15 ms in absolute value do not exist (\<open>TimeClip\<close>).  The \<open>timestamp\<close> of a contact may
  be absent (\<open>undefined\<close>), which the store's own tests exercise.
\<close>

datatype jsdate = Invalid_Date | Date int

definition time_clip :: "int \<Rightarrow> jsdate" where
  "time_clip t = (if \<bar>t\<bar> \<le> 8640000000000000 then Date t else Invalid_Date)"

text \<open>\<open>a > b\<close> on two dates compares the time values; it is false when one is NaN.\<close>

fun date_gt :: "jsdate \<Rightarrow> jsdate \<Rightarrow> bool" where
  "date_gt (Date a) (Date b) = (a > b)"
| "date_gt _ _ = False"

record ContactData =
  name :: string
  phone :: string
  email :: string
  source :: string
  timestamp :: "jsdate option"

section \<open>DOMScanner: deduplication of the candidates of a page\<close>

text \<open>
  \<open>removeDuplicateContacts\<close> walks the candidates with a set \<open>seen\<close> of keys and the list
  \<open>unique\<close> of survivors.  A candidate that matches a survivor fills the survivor's empty
  fields in place; the survivor is an element of \<open>unique\<close>, so the model rewrites that
  element.
\<close>

definition dedup_key :: "ContactData \<Rightarrow> string" where
  "dedup_key contact = toLowerCase (email contact) @ ''|'' @ phone contact"

definition partial_match :: "ContactData \<Rightarrow> ContactData \<Rightarrow> bool" where
  "partial_match contact existingContact =
     ((email contact \<noteq> [] \<and> toLowerCase (email contact) = toLowerCase (email existingContact))
      \<or> (phone contact \<noteq> [] \<and> phone contact = phone existingContact))"

definition merge_fields :: "ContactData \<Rightarrow> ContactData \<Rightarrow> ContactData" where
  "merge_fields existingContact contact =
     (let e1 = (if name existingContact = [] \<and> name contact \<noteq> []
                then existingContact\<lparr>name := name contact\<rparr> else existingContact);
          e2 = (if phone e1 = [] \<and> phone contact \<noteq> [] then e1\<lparr>phone := phone contact\<rparr> else e1);
          e3 = (if email e2 = [] \<and> email contact \<noteq> [] then e2\<lparr>email := email contact\<rparr> else e2)
      in e3)"

text \<open>The inner loop: the first survivor that matches is merged and the loop breaks;
  \<open>None\<close> when no survivor matches (\<open>isDuplicate\<close> stays false).\<close>

fun merge_first :: "ContactData \<Rightarrow> ContactData list \<Rightarrow> ContactData list option" where
  "merge_first contact [] = None"
| "merge_first contact (existingContact # rest) =
     (if partial_match contact existingContact
      then Some (merge_fields existingContact contact # rest)
      else map_option ((#) existingContact) (merge_first contact rest))"

definition dedup_step :: "string list \<times> ContactData list \<Rightarrow> ContactData
                           \<Rightarrow> string list \<times> ContactData list" where
  "dedup_step st contact =
     (let seen = fst st; unique = snd st; key = dedup_key contact in
      if key \<in> set seen then (seen, unique)
      else (case merge_first contact unique of
              Some unique' \<Rightarrow> (seen, unique')
            | None \<Rightarrow> (key # seen, unique @ [contact])))"

definition removeDuplicateContacts :: "ContactData list \<Rightarrow> ContactData list" where
  "removeDuplicateContacts contacts = snd (foldl dedup_step ([], []) contacts)"

text \<open>\<open>xs[i] || ''\<close>.\<close>

definition nth_or_empty :: "string list \<Rightarrow> nat \<Rightarrow> string" where
  "nth_or_empty xs i = (if i < length xs then xs ! i else [])"

text \<open>\<open>matchContactData\<close>; \<open>src\<close> is \<open>window.location.href\<close> and \<open>now\<close> the clock reading.\<close>

definition matchContactData ::
    "string list \<Rightarrow> string list \<Rightarrow> string list \<Rightarrow> string \<Rightarrow> int \<Rightarrow> ContactData list" where
  "matchContactData names phones emails src now =
     (if length names = length phones \<and> length phones = length emails \<and> length names > 0
      then map (\<lambda>i. \<lparr>name = names ! i, phone = phones ! i, email = emails ! i, source = src,
                       timestamp = Some (Date now)\<rparr>) [0..<length names]
      else let maxLength = max (length names) (max (length phones) (length emails));
               contacts =
                 filter (\<lambda>contact. name contact \<noteq> [] \<and> (phone contact \<noteq> [] \<or> email contact \<noteq> []))
                   (map (\<lambda>i. \<lparr>name = nth_or_empty names i, phone = nth_or_empty phones i,
                                email = nth_or_empty emails i, source = src,
                                timestamp = Some (Date now)\<rparr>) [0..<maxLength])
           in if length contacts = 0
              then map (\<lambda>e. \<lparr>name = [], phone = [], email = e, source = src,
                               timestamp = Some (Date now)\<rparr>) emails
                   @ map (\<lambda>p. \<lparr>name = [], phone = p, email = [], source = src,
                                 timestamp = Some (Date now)\<rparr>) phones
              else contacts)"

definition extractContactsFromText :: "string \<Rightarrow> int \<Rightarrow> string \<Rightarrow> ContactData list" where
  "extractContactsFromText src now text =
     (let emails = extractEmails text; phones = extractPhones text; names = extractNames text
      in if length emails > 0 \<or> length phones > 0 \<or> length names > 0
         then matchContactData names phones emails src now else [])"

text \<open>The free-text pass over the texts of the elements it scans, in document order, and
  the deduplication of \<open>scanPage\<close> behind it (on a page without tables and lists).\<close>

definition scan_texts :: "string \<Rightarrow> int \<Rightarrow> string list \<Rightarrow> ContactData list" where
  "scan_texts src now texts =
     removeDuplicateContacts
       (concat (map (\<lambda>text. if length text < 5 then [] else extractContactsFromText src now text)
                    texts))"

section \<open>DataManager\<close>

text \<open>
  The state of a \<open>DataManager\<close> is its array \<open>contacts\<close> and what \<open>loadSession\<close> reads back
  from local storage under the session key: nothing (no entry, or one that does not
  parse), or a snapshot whose \<open>contacts\<close> and \<open>timestamp\<close> may each be missing.  The copy of
  the contacts that \<open>saveToStorage\<close> writes is read by the constructor only and is left out.
\<close>

record Session =
  session_contacts :: "ContactData list option"
  session_timestamp :: "jsdate option"

record DataManager =
  contacts :: "ContactData list"
  session :: "Session option"

text \<open>\<open>phone.replace(/[\s\-\(\)\+]/g, '')\<close>.\<close>

definition normalizePhone :: "string \<Rightarrow> string" where
  "normalizePhone p =
     filter (\<lambda>c. \<not> (is_space c \<or> c = CHR ''-'' \<or> c = CHR ''('' \<or> c = CHR '')'' \<or> c = CHR ''+'')) p"

text \<open>The last class of the store's e-mail expression is \<open>[A-Z|a-z]\<close>, with the bar.\<close>

definition is_alpha_bar :: "char \<Rightarrow> bool" where
  "is_alpha_bar c = (is_alpha c \<or> c = CHR ''|'')"

definition store_emailRegex :: rx where
  "store_emailRegex =
     rx_seq [Bol, rx_plus (Cls is_local), rx_chr CHR ''@'', rx_plus (Cls is_domain),
             rx_chr CHR ''.'', rx_atleast 2 (Cls is_alpha_bar), Eol]"

definition isValidEmail :: "string \<Rightarrow> bool" where
  "isValidEmail e = rx_test store_emailRegex (trim e)"

definition phone_tail :: "rx list" where
  "phone_tail = [rx_range 4 5 (Cls is_digit), Opt (rx_chr CHR ''-''), rx_rep 4 (Cls is_digit), Eol]"

definition store_phone_patterns :: "rx list" where
  "store_phone_patterns =
     [rx_seq ([Bol, rx_chr CHR ''('', rx_rep 2 (Cls is_digit), rx_chr CHR '')'', Opt (Cls is_space)]
              @ phone_tail),
      rx_seq ([Bol, rx_rep 2 (Cls is_digit), Cls is_space] @ phone_tail),
      rx_seq ([Bol, rx_chr CHR ''+'', rx_chr CHR ''5'', rx_chr CHR ''5'', Cls is_space,
               rx_rep 2 (Cls is_digit), Cls is_space] @ phone_tail),
      rx_seq [Bol, rx_range 10 11 (Cls is_digit), Eol]]"

definition isValidPhone :: "string \<Rightarrow> bool" where
  "isValidPhone p =
     (let cleanPhone = trim p
      in if cleanPhone = [] then False
         else list_ex (\<lambda>pattern. rx_test pattern cleanPhone) store_phone_patterns)"

definition hasPhone :: "ContactData \<Rightarrow> bool" where
  "hasPhone contact = (phone contact \<noteq> [] \<and> trim (phone contact) \<noteq> [])"

definition hasEmail :: "ContactData \<Rightarrow> bool" where
  "hasEmail contact = (email contact \<noteq> [] \<and> trim (email contact) \<noteq> [])"

definition validateContact :: "ContactData \<Rightarrow> bool" where
  "validateContact contact =
     (if name contact = [] \<or> trim (name contact) = [] then False
      else if \<not> hasPhone contact \<and> \<not> hasEmail contact then False
      else if hasEmail contact \<and> \<not> isValidEmail (email contact) then False
      else if hasPhone contact \<and> \<not> isValidPhone (phone contact) then False
      else True)"

text \<open>The body of the \<open>some\<close> callback of \<open>isDuplicateInArray\<close>.\<close>

definition same_contact :: "ContactData \<Rightarrow> ContactData \<Rightarrow> bool" where
  "same_contact contact existing =
     (let nameMatch = (trim (toLowerCase (name existing)) = trim (toLowerCase (name contact)));
          phoneMatch = (phone existing \<noteq> [] \<and> phone contact \<noteq> [] \<and> trim (phone existing) \<noteq> []
                        \<and> trim (phone contact) \<noteq> []
                        \<and> normalizePhone (phone existing) = normalizePhone (phone contact));
          emailMatch = (email existing \<noteq> [] \<and> email contact \<noteq> [] \<and> trim (email existing) \<noteq> []
                        \<and> trim (email contact) \<noteq> []
                        \<and> trim (toLowerCase (email existing)) = trim (toLowerCase (email contact)))
      in nameMatch \<and> (phoneMatch \<or> emailMatch))"

definition isDuplicateInArray :: "ContactData \<Rightarrow> ContactData list \<Rightarrow> bool" where
  "isDuplicateInArray contact contactArray = list_ex (same_contact contact) contactArray"

definition isDuplicate :: "DataManager \<Rightarrow> ContactData \<Rightarrow> bool" where
  "isDuplicate dm contact = isDuplicateInArray contact (contacts dm)"

text \<open>\<open>addContact\<close>; \<open>now\<close> is the clock reading of \<open>new Date()\<close>.  The result is the
  returned flag and the new state.\<close>

definition addContact :: "int \<Rightarrow> ContactData \<Rightarrow> DataManager \<Rightarrow> bool \<times> DataManager" where
  "addContact now contact dm =
     (if \<not> validateContact contact then (False, dm)
      else if isDuplicate dm contact then (False, dm)
      else let contact' = (if timestamp contact = None
                           then contact\<lparr>timestamp := Some (Date now)\<rparr> else contact)
           in (True, dm\<lparr>contacts := contacts dm @ [contact']\<rparr>))"

text \<open>\<open>xs.splice(i, 1)\<close> on a copy: the list without its element \<open>i\<close>.\<close>

definition splice1 :: "nat \<Rightarrow> 'a list \<Rightarrow> 'a list" where
  "splice1 i xs = take i xs @ drop (Suc i) xs"

definition removeContact :: "int \<Rightarrow> DataManager \<Rightarrow> bool \<times> DataManager" where
  "removeContact index dm =
     (if index < 0 \<or> index \<ge> int (length (contacts dm)) then (False, dm)
      else (True, dm\<lparr>contacts := splice1 (nat index) (contacts dm)\<rparr>))"

definition updateContact :: "int \<Rightarrow> ContactData \<Rightarrow> DataManager \<Rightarrow> bool \<times> DataManager" where
  "updateContact index contact dm =
     (if index < 0 \<or> index \<ge> int (length (contacts dm)) then (False, dm)
      else if \<not> validateContact contact then (False, dm)
      else if isDuplicateInArray contact (splice1 (nat index) (contacts dm)) then (False, dm)
      else (True, dm\<lparr>contacts := (contacts dm)[nat index := contact]\<rparr>))"

definition getContactCount :: "DataManager \<Rightarrow> nat" where
  "getContactCount dm = length (contacts dm)"

definition clearAll :: "DataManager \<Rightarrow> DataManager" where
  "clearAll dm = dm\<lparr>contacts := []\<rparr>"

text \<open>The merge loop shared by \<open>restoreSession\<close> and \<open>importSessionData\<close>.\<close>

definition merge_contact :: "DataManager \<Rightarrow> ContactData \<Rightarrow> DataManager" where
  "merge_contact dm contact =
     (if \<not> isDuplicate dm contact then dm\<lparr>contacts := contacts dm @ [contact]\<rparr> else dm)"

datatype strategy = Replace | Merge

definition restoreSession :: "strategy \<Rightarrow> DataManager \<Rightarrow> bool \<times> DataManager" where
  "restoreSession mergeStrategy dm =
     (case session dm of
        None \<Rightarrow> (False, dm)
      | Some s \<Rightarrow>
          (case session_contacts s of
             None \<Rightarrow> (False, dm)
           | Some cs \<Rightarrow>
               (case mergeStrategy of
                  Replace \<Rightarrow> (True, dm\<lparr>contacts := cs\<rparr>)
                | Merge \<Rightarrow> (True, foldl merge_contact dm cs))))"

text \<open>\<open>importSessionData\<close> receives JSON text; the model receives what \<open>JSON.parse\<close> and the
  conversion of the time stamps make of it.\<close>

datatype import_data = Parse_Error | No_Contacts | Contacts "ContactData list"

definition importSessionData :: "import_data \<Rightarrow> strategy \<Rightarrow> DataManager \<Rightarrow> bool \<times> DataManager" where
  "importSessionData importData mergeStrategy dm =
     (case importData of
        Parse_Error \<Rightarrow> (False, dm)
      | No_Contacts \<Rightarrow> (False, dm)
      | Contacts importedContacts \<Rightarrow>
          (case mergeStrategy of
             Replace \<Rightarrow> (True, dm\<lparr>contacts := importedContacts\<rparr>)
           | Merge \<Rightarrow> (True, foldl merge_contact dm importedContacts)))"

definition clearSession :: "DataManager \<Rightarrow> DataManager" where
  "clearSession dm = dm\<lparr>session := None\<rparr>"

text \<open>\<open>getSessionAge\<close>: \<open>null\<close> is the outer \<open>None\<close>, NaN the inner one.\<close>

definition getSessionAge :: "int \<Rightarrow> DataManager \<Rightarrow> int option option" where
  "getSessionAge now dm =
     (case session dm of
        None \<Rightarrow> None
      | Some s \<Rightarrow>
          (case session_timestamp s of
             None \<Rightarrow> None
           | Some Invalid_Date \<Rightarrow> Some None
           | Some (Date t) \<Rightarrow> Some (Some ((now - t) div (1000 * 60)))))"

text \<open>
  A JavaScript number: NaN, an infinity, or a finite value.  Finite doubles are taken as
  the rationals they denote and their products and differences as exact.
\<close>

datatype number = NaN | PosInfinity | NegInfinity | Num rat

text \<open>\<open>x * k\<close> for a positive constant \<open>k\<close>, and \<open>a - x\<close> for a finite \<open>a\<close>.\<close>

definition times :: "number \<Rightarrow> rat \<Rightarrow> number" where
  "times x k = (case x of Num q \<Rightarrow> Num (q * k) | NaN \<Rightarrow> NaN
                | PosInfinity \<Rightarrow> PosInfinity | NegInfinity \<Rightarrow> NegInfinity)"

definition minus_from :: "rat \<Rightarrow> number \<Rightarrow> number" where
  "minus_from a x = (case x of Num q \<Rightarrow> Num (a - q) | NaN \<Rightarrow> NaN
                     | PosInfinity \<Rightarrow> NegInfinity | NegInfinity \<Rightarrow> PosInfinity)"

text \<open>\<open>sessionAge > limit\<close>, where the age is an integer or NaN (\<open>None\<close>).\<close>

definition age_exceeds :: "int option \<Rightarrow> number \<Rightarrow> bool" where
  "age_exceeds a x =
     (case a of
        None \<Rightarrow> False
      | Some n \<Rightarrow> (case x of Num q \<Rightarrow> of_int n > q | NegInfinity \<Rightarrow> True | _ \<Rightarrow> False))"

text \<open>\<open>ToIntegerOrInfinity\<close> on a finite value: truncation towards zero.\<close>

definition ToIntegerOrInfinity :: "rat \<Rightarrow> int" where
  "ToIntegerOrInfinity q = (if 0 \<le> q then \<lfloor>q\<rfloor> else \<lceil>q\<rceil>)"

text \<open>
  The time zone of the browser: the offset of local time from UTC in milliseconds, asked
  at a UTC time value (\<open>LocalTime\<close>) and at a local time value (\<open>UTC\<close>).
\<close>

record Zone =
  offset_at_utc :: "int \<Rightarrow> int"
  offset_at_local :: "int \<Rightarrow> int"

definition msPerDay :: int where
  "msPerDay = 86400000"

definition LocalTime :: "Zone \<Rightarrow> int \<Rightarrow> int" where
  "LocalTime z t = t + offset_at_utc z t"

definition UTC :: "Zone \<Rightarrow> int \<Rightarrow> int" where
  "UTC z t = t - offset_at_local z t"

text \<open>\<open>DateFromTime\<close>: the day of the month, 1 to 31, of a time value in the proleptic
  Gregorian calendar.\<close>

definition DateFromTime :: "int \<Rightarrow> int" where
  "DateFromTime t =
     (let z = t div msPerDay + 719468;
          doe = z mod 146097;
          yoe = (doe - doe div 1460 + doe div 36524 - doe div 146096) div 365;
          doy = doe - (365 * yoe + yoe div 4 - yoe div 100);
          mp = (5 * doy + 2) div 153
      in doy - (153 * mp + 2) div 5 + 1)"

definition getDate :: "Zone \<Rightarrow> int \<Rightarrow> int" where
  "getDate z t = DateFromTime (LocalTime z t)"

text \<open>
  \<open>d.setDate(date)\<close> on a valid date with time value \<open>t\<close>: the day of the month of the
  local time is replaced by the integer part of \<open>date\<close>, the time within the day stays,
  and the result goes back to UTC and through \<open>TimeClip\<close>.  A \<open>date\<close> that is not finite
  gives an invalid date.
\<close>

definition setDate :: "Zone \<Rightarrow> int \<Rightarrow> number \<Rightarrow> jsdate" where
  "setDate z t date =
     (case date of
        Num d \<Rightarrow>
          (let tl = LocalTime z t;
               day = tl div msPerDay - DateFromTime tl + ToIntegerOrInfinity d;
               newDate = day * msPerDay + tl mod msPerDay
           in time_clip (UTC z newDate))
      | _ \<Rightarrow> Invalid_Date)"

text \<open>\<open>cleanupOldContacts\<close>; \<open>now\<close> is the clock reading of its \<open>new Date()\<close>.\<close>

definition cleanupOldContacts :: "Zone \<Rightarrow> number \<Rightarrow> int \<Rightarrow> DataManager \<Rightarrow> DataManager" where
  "cleanupOldContacts z maxAgeDays now dm =
     (let cutoffDate = setDate z now (minus_from (of_int (getDate z now)) maxAgeDays)
      in dm\<lparr>contacts :=
              filter (\<lambda>contact. case timestamp contact of
                                  None \<Rightarrow> False
                                | Some t \<Rightarrow> date_gt t cutoffDate)
                     (contacts dm)\<rparr>)"

text \<open>\<open>cleanupOldSessions\<close>; \<open>now1\<close> is the clock reading inside \<open>getSessionAge\<close> and
  \<open>now2\<close> the later one inside \<open>cleanupOldContacts\<close>.\<close>

definition cleanupOldSessions ::
    "Zone \<Rightarrow> number \<Rightarrow> int \<Rightarrow> int \<Rightarrow> DataManager \<Rightarrow> DataManager" where
  "cleanupOldSessions z maxAgeHours now1 now2 dm =
     (let dm1 = (case getSessionAge now1 dm of
                   None \<Rightarrow> dm
                 | Some sessionAge \<Rightarrow>
                     if age_exceeds sessionAge (times maxAgeHours 60) then clearSession dm
                     else dm)
      in cleanupOldContacts z (times maxAgeHours 24) now2 dm1)"

definition default_maxAgeHours :: number where
  "default_maxAgeHours = Num 24"

section \<open>DataManager: the accessors on the object store\<close>

text \<open>
  \<open>getAllContacts\<close> and \<open>getContact\<close> hand objects to the caller, so what they share with
  the store matters.  Here records and arrays live in a store of objects: a record object
  is a \<open>ContactData\<close> at an address, an array is a list of addresses at an address, and the
  \<open>DataManager\<close> holds the address of its \<open>contacts\<close> array.
\<close>

record heap =
  recs :: "nat \<Rightarrow> ContactData option"
  arrs :: "nat \<Rightarrow> nat list option"
  fresh :: nat

text \<open>The contents of the store as the value-level model sees them.\<close>

definition store_view :: "heap \<Rightarrow> nat \<Rightarrow> ContactData option list option" where
  "store_view h dm_contacts = map_option (map (recs h)) (arrs h dm_contacts)"

text \<open>\<open>[...this.contacts]\<close>: a new array with the same elements.\<close>

definition getAllContacts :: "nat \<Rightarrow> heap \<Rightarrow> nat option \<times> heap" where
  "getAllContacts dm_contacts h =
     (case arrs h dm_contacts of
        None \<Rightarrow> (None, h)
      | Some elems \<Rightarrow>
          (Some (fresh h), h\<lparr>arrs := (arrs h)(fresh h := Some elems), fresh := Suc (fresh h)\<rparr>))"

text \<open>\<open>{ ...this.contacts[index] }\<close>: a new record object with the same field values.\<close>

definition getContact :: "nat \<Rightarrow> int \<Rightarrow> heap \<Rightarrow> nat option \<times> heap" where
  "getContact dm_contacts index h =
     (case arrs h dm_contacts of
        None \<Rightarrow> (None, h)
      | Some elems \<Rightarrow>
          if index < 0 \<or> index \<ge> int (length elems) then (None, h)
          else (case recs h (elems ! nat index) of
                  None \<Rightarrow> (None, h)
                | Some r \<Rightarrow>
                    (Some (fresh h),
                     h\<lparr>recs := (recs h)(fresh h := Some r), fresh := Suc (fresh h)\<rparr>)))"

text \<open>What a caller can do with what it got: assign to a field of a record object, and
  assign to a slot of an array.\<close>

definition set_name :: "nat \<Rightarrow> string \<Rightarrow> heap \<Rightarrow> heap" where
  "set_name r v h = h\<lparr>recs := (recs h)(r := map_option (\<lambda>c. c\<lparr>name := v\<rparr>) (recs h r))\<rparr>"

definition set_slot :: "nat \<Rightarrow> nat \<Rightarrow> nat \<Rightarrow> heap \<Rightarrow> heap" where
  "set_slot a i r h = h\<lparr>arrs := (arrs h)(a := map_option (\<lambda>xs. xs[i := r]) (arrs h a))\<rparr>"

section \<open>Notions used in the statements\<close>

text \<open>All matches of the four patterns in the order in which \<open>extractPhones\<close> visits
  them, what one match contributes, and a list without the later occurrences of its
  elements.\<close>

definition phone_matches :: "string \<Rightarrow> string list" where
  "phone_matches text =
     concat (map (\<lambda>pattern. matchAll pattern ([], trim (collapse_spaces text))) PHONE_PATTERNS)"

definition accepted_phone :: "string \<Rightarrow> string option" where
  "accepted_phone m =
     (case formatPhone m of
        None \<Rightarrow> None
      | Some p \<Rightarrow> if p \<noteq> [] \<and> validatePhone p then Some p else None)"

definition first_occurrences :: "'a list \<Rightarrow> 'a list" where
  "first_occurrences xs = rev (remdups (rev xs))"

text \<open>What the store itself checks of a record: the formats of \<open>isValidPhone\<close> and
  \<open>isValidEmail\<close>, for the fields that are not blank.\<close>

definition contact_ok :: "ContactData \<Rightarrow> bool" where
  "contact_ok c = ((hasPhone c \<longrightarrow> isValidPhone (phone c)) \<and> (hasEmail c \<longrightarrow> isValidEmail (email c)))"

definition store_ok :: "DataManager \<Rightarrow> bool" where
  "store_ok dm = list_all contact_ok (contacts dm)"

definition session_ok :: "DataManager \<Rightarrow> bool" where
  "session_ok dm =
     (case session dm of
        None \<Rightarrow> True
      | Some s \<Rightarrow> (case session_contacts s of None \<Rightarrow> True | Some cs \<Rightarrow> list_all contact_ok cs))"

text \<open>The three comparisons of the duplicate rule: names and e-mails in lower case and
  trimmed, phones normalized.\<close>

definition same_name :: "ContactData \<Rightarrow> ContactData \<Rightarrow> bool" where
  "same_name a b = (trim (toLowerCase (name a)) = trim (toLowerCase (name b)))"

definition same_phone :: "ContactData \<Rightarrow> ContactData \<Rightarrow> bool" where
  "same_phone a b = (normalizePhone (phone a) = normalizePhone (phone b))"

definition same_email :: "ContactData \<Rightarrow> ContactData \<Rightarrow> bool" where
  "same_email a b = (trim (toLowerCase (email a)) = trim (toLowerCase (email b)))"

text \<open>Two names that agree once case and every white space character are ignored.\<close>

definition same_name_up_to_space :: "ContactData \<Rightarrow> ContactData \<Rightarrow> bool" where
  "same_name_up_to_space a b =
     (filter (\<lambda>c. \<not> is_space c) (toLowerCase (name a))
      = filter (\<lambda>c. \<not> is_space c) (toLowerCase (name b)))"

definition empty_store :: DataManager where
  "empty_store = \<lparr>contacts = [], session = None\<rparr>"

text \<open>Every match of the expression begins in a text that holds a digit.\<close>

definition needs_digit :: "rx \<Rightarrow> bool" where
  "needs_digit r = (\<forall>st st'. st' \<in> set (run r st) \<longrightarrow> (\<exists>c \<in> set (snd st). is_digit c))"

text \<open>The contacts of the store's test suite: \<open>mockContact\<close> (the fourth character of the
  name is the a with tilde), the contact with another phone and e-mail, and a second
  person.\<close>

definition joao :: ContactData where
  "joao = \<lparr>name = ''Jo'' @ [CHR 0xE3] @ ''o Silva'', phone = ''(11) 99999-9999'',
           email = ''joao@example.com'', source = ''https://example.com'',
           timestamp = Some (Date 0)\<rparr>"

definition joao2 :: ContactData where
  "joao2 = joao\<lparr>phone := ''(21) 88888-8888'', email := ''joao2@example.com''\<rparr>"

text \<open>\<open>mockContact\<close> written in capitals between two spaces, with the phone in another
  format and no e-mail; and \<open>mockContact\<close> with two spaces inside the name.\<close>

definition joao_respelled :: ContactData where
  "joao_respelled = joao\<lparr>name := '' JO'' @ [CHR 0xC3] @ ''O silva '', phone := ''11 99999-9999'',
                          email := []\<rparr>"

definition joao_spaced :: ContactData where
  "joao_spaced = joao\<lparr>name := ''Jo'' @ [CHR 0xE3] @ ''o  Silva''\<rparr>"

definition maria :: ContactData where
  "maria = \<lparr>name = ''Maria Santos'', phone = ''(21) 98888-8888'', email = ''maria@email.com'',
            source = ''https://example.com'', timestamp = Some (Date 0)\<rparr>"

text \<open>An object store with the record of \<open>mockContact\<close> at address 1 and the store's
  \<open>contacts\<close> array, which holds it, at address 0.\<close>

definition heap0 :: heap where
  "heap0 = \<lparr>recs = (\<lambda>a. None)(1 := Some joao), arrs = (\<lambda>a. None)(0 := Some [1]), fresh = 2\<rparr>"

text \<open>A store with one contact and a session snapshot of another.\<close>

definition snapshot_store :: DataManager where
  "snapshot_store =
     \<lparr>contacts = [joao],
      session = Some \<lparr>session_contacts = Some [joao2], session_timestamp = None\<rparr>\<rparr>"

text \<open>The time zone UTC.\<close>

definition utc_zone :: Zone where
  "utc_zone = \<lparr>offset_at_utc = (\<lambda>t. 0), offset_at_local = (\<lambda>t. 0)\<rparr>"

text \<open>Central European time around the end of summer time on 25 October 2026, 01:00
  UTC: two hours before, one hour after.\<close>

definition berlin_2026 :: Zone where
  "berlin_2026 =
     \<lparr>offset_at_utc = (\<lambda>t. if t < 1792890000000 then 7200000 else 3600000),
      offset_at_local = (\<lambda>t. if t < 1792890000000 + 7200000 then 7200000 else 3600000)\<rparr>"

text \<open>A store with a contact of 30 days, one of 600 days and one without timestamp, seen
  on day 1000 (27 September 1972), and a session snapshot taken on day 0.\<close>

definition old_store :: DataManager where
  "old_store =
     \<lparr>contacts = [joao\<lparr>timestamp := Some (Date (970 * 86400000))\<rparr>,
                  maria\<lparr>timestamp := Some (Date (400 * 86400000))\<rparr>,
                  joao2\<lparr>timestamp := None\<rparr>],
      session = Some \<lparr>session_contacts = Some [], session_timestamp = Some (Date 0)\<rparr>\<rparr>"

text \<open>The candidate that a text block holding only an e-mail address yields.\<close>

definition orphan :: ContactData where
  "orphan = \<lparr>name = [], phone = [], email = ''joao@email.com'', source = ''https://example.com'',
             timestamp = Some (Date 0)\<rparr>"

section \<open>Properties of the phone functions\<close>

declare run.simps(5) [simp del]
declare matchAll.simps [simp del]

lemma not_digit_punct [simp]:
  "\<not> is_digit CHR ''(''" "\<not> is_digit CHR '')''" "\<not> is_digit CHR '' ''" "\<not> is_digit CHR ''-''"
  by (simp_all add: is_digit_def code_def)

lemma filter_id_all: "list_all P xs \<Longrightarrow> filter P xs = xs"
  by (induction xs) auto

lemma list_all_digits_of [simp]: "list_all is_digit (digits_of s)"
  by (simp add: digits_of_def list_all_iff)

lemma list_all_strip_country: "list_all is_digit ds \<Longrightarrow> list_all is_digit (strip_country ds)"
  by (auto simp: strip_country_def substring_from_def list_all_iff dest: in_set_dropD)

lemma strip_country_short: "length ds \<le> 11 \<Longrightarrow> strip_country ds = ds"
  by (simp add: strip_country_def)

text \<open>The digits of a canonical phone string are the digits it was built from.\<close>

lemma digits_of_canonical:
  assumes "list_all is_digit ds" and "2 \<le> k"
  shows "digits_of (''('' @ substring 0 2 ds @ '') '' @ substring 2 k ds @ ''-''
                    @ substring_from k ds) = ds"
proof -
  have a: "filter is_digit (take n (drop m ds)) = take n (drop m ds)" for n m
    using assms(1)
    by (intro filter_id_all) (auto simp: list_all_iff dest: in_set_takeD in_set_dropD)
  have b: "filter is_digit (drop m ds) = drop m ds" for m
    using assms(1) by (intro filter_id_all) (auto simp: list_all_iff dest: in_set_dropD)
  have c: "filter is_digit (take n ds) = take n ds" for n
    using assms(1) by (intro filter_id_all) (auto simp: list_all_iff dest: in_set_takeD)
  have "take 2 ds @ take (k - 2) (drop 2 ds) @ drop k ds = ds"
  proof -
    have "take (k - 2) (drop 2 ds) @ drop k ds = drop 2 ds"
      using assms(2) by (metis append_take_drop_id drop_drop le_add_diff_inverse2)
    then show ?thesis by simp
  qed
  then show ?thesis
    by (simp add: digits_of_def substring_def substring_from_def a b c)
qed

text \<open>A formatted phone formats to itself; and \<open>formatPhone\<close> reads the digits only, so
  two canonical phones with the same digits are the same string.\<close>

lemma formatPhone_again:
  assumes "formatPhone d = Some p"
  shows "formatPhone p = Some p"
proof -
  define ds where "ds = strip_country (digits_of d)"
  have dig: "list_all is_digit ds"
    unfolding ds_def by (rule list_all_strip_country) simp
  have len: "length ds = 10 \<or> length ds = 11"
    using assms unfolding formatPhone_def ds_def [symmetric] Let_def
    by (auto split: if_splits)
  have "digits_of p = ds"
    using assms dig digits_of_canonical [of ds 7] digits_of_canonical [of ds 6]
    unfolding formatPhone_def ds_def [symmetric] Let_def
    by (auto split: if_splits)
  then have "strip_country (digits_of p) = ds"
    using len by (auto simp: strip_country_short)
  then have "formatPhone p = formatPhone d"
    unfolding formatPhone_def [of p] formatPhone_def [of d] ds_def [symmetric] by simp
  then show ?thesis using assms by simp
qed

lemma formatPhone_digits: "digits_of a = digits_of b \<Longrightarrow> formatPhone a = formatPhone b"
  by (simp add: formatPhone_def)

lemma canonical_phone_compare:
  assumes "formatPhone a = Some p" and "formatPhone b = Some q"
  shows "(digits_of p = digits_of q) = (p = q)"
proof
  assume "digits_of p = digits_of q"
  then have "formatPhone p = formatPhone q" by (rule formatPhone_digits)
  then show "p = q"
    using formatPhone_again [OF assms(1)] formatPhone_again [OF assms(2)] by simp
next
  assume "p = q"
  then show "digits_of p = digits_of q" by simp
qed

text \<open>
  C8: for every string \<open>d\<close> for which \<open>formatPhone\<close> returns a phone (not null), formatting
  that phone again returns the same phone: \<open>formatPhone\<close> is idempotent on its own output.
\<close>

theorem formatPhone_idempotent:
  "formatPhone d = Some p \<Longrightarrow> formatPhone p = Some p"
  by (rule formatPhone_again)

theorem formatPhone_idempotent_witness:
  "formatPhone ''+55 (11) 99999-8888'' = Some ''(11) 99999-8888''
   \<and> formatPhone ''(11) 99999-8888'' = Some ''(11) 99999-8888''"
proof -
  have h: "formatPhone ''+55 (11) 99999-8888'' = Some ''(11) 99999-8888''"
    by code_simp
  show ?thesis using h formatPhone_idempotent [OF h] by simp
qed

text \<open>The loop body of \<open>extractPhones\<close> keeps the list valid and free of duplicates.\<close>

lemma add_phone_inv:
  "list_all validatePhone phones \<and> distinct phones \<Longrightarrow>
   list_all validatePhone (add_phone phones m) \<and> distinct (add_phone phones m)"
  by (auto simp: add_phone_def split: option.splits)

lemma foldl_add_phone_inv:
  "list_all validatePhone phones \<and> distinct phones \<Longrightarrow>
   list_all validatePhone (foldl add_phone phones ms) \<and> distinct (foldl add_phone phones ms)"
proof (induction ms arbitrary: phones)
  case Nil
  then show ?case by simp
next
  case (Cons m ms)
  show ?case using Cons.IH [OF add_phone_inv [OF Cons.prems]] by simp
qed

lemma patterns_inv:
  "list_all validatePhone phones \<and> distinct phones \<Longrightarrow>
   list_all validatePhone
     (foldl (\<lambda>phones pattern. foldl add_phone phones (matchAll pattern st)) phones ps)
   \<and> distinct (foldl (\<lambda>phones pattern. foldl add_phone phones (matchAll pattern st)) phones ps)"
proof (induction ps arbitrary: phones)
  case Nil
  then show ?case by simp
next
  case (Cons q ps)
  show ?case using Cons.IH [OF foldl_add_phone_inv [OF Cons.prems]] by simp
qed

lemma remdups_drop_earlier: "p \<in> set ys \<Longrightarrow> remdups (xs @ p # ys) = remdups (xs @ ys)"
  by (induction xs) auto

lemma first_occurrences_seen:
  "p \<in> set acc \<Longrightarrow> first_occurrences (acc @ p # xs) = first_occurrences (acc @ xs)"
  by (simp add: first_occurrences_def remdups_drop_earlier)

lemma first_occurrences_distinct: "distinct acc \<Longrightarrow> first_occurrences acc = acc"
  by (simp add: first_occurrences_def distinct_remdups_id)

lemma add_phone_alt:
  "add_phone phones m =
     (case accepted_phone m of
        None \<Rightarrow> phones
      | Some p \<Rightarrow> if p \<in> set phones then phones else phones @ [p])"
  by (auto simp: add_phone_def accepted_phone_def split: option.splits)

lemma foldl_add_phone_order:
  "distinct acc \<Longrightarrow>
   foldl add_phone acc ms = first_occurrences (acc @ List.map_filter accepted_phone ms)"
proof (induction ms arbitrary: acc)
  case Nil
  then show ?case by (simp add: first_occurrences_distinct List.map_filter_simps)
next
  case (Cons m ms)
  show ?case
  proof (cases "accepted_phone m")
    case None
    then show ?thesis using Cons by (simp add: add_phone_alt List.map_filter_simps)
  next
    case (Some p)
    show ?thesis
    proof (cases "p \<in> set acc")
      case True
      then show ?thesis
        using Some Cons by (simp add: add_phone_alt List.map_filter_simps first_occurrences_seen)
    next
      case False
      then have "distinct (acc @ [p])" using Cons.prems by simp
      from Cons.IH [OF this] show ?thesis
        using Some False by (simp add: add_phone_alt List.map_filter_simps)
    qed
  qed
qed

lemma foldl_patterns_concat:
  "foldl (\<lambda>phones pattern. foldl add_phone phones (f pattern)) acc ps
     = foldl add_phone acc (concat (map f ps))"
  by (induction ps arbitrary: acc) simp_all

lemma extractPhones_order:
  "extractPhones s =
     (if s = [] then [] else first_occurrences (List.map_filter accepted_phone (phone_matches s)))"
  using foldl_add_phone_order [of "[]" "phone_matches s"]
  by (simp add: extractPhones_def Let_def foldl_patterns_concat phone_matches_def)

text \<open>
  C7: for every string \<open>s\<close>, every element of \<open>extractPhones s\<close> satisfies \<open>validatePhone\<close>,
  and \<open>extractPhones s\<close> holds no value twice: it lists the phones that the matches
  yield, each once, in the order of their first occurrence.
\<close>

theorem extractPhones_valid_distinct:
  "list_all validatePhone (extractPhones s) \<and> distinct (extractPhones s)
   \<and> extractPhones s =
       (if s = [] then []
        else first_occurrences (List.map_filter accepted_phone (phone_matches s)))"
proof -
  have "list_all validatePhone (extractPhones s) \<and> distinct (extractPhones s)"
    using patterns_inv [of "[]"] by (simp add: extractPhones_def Let_def)
  then show ?thesis using extractPhones_order [of s] by blast
qed

theorem extractPhones_valid_distinct_witness:
  "list_all validatePhone (extractPhones ''tel 11 3333-4444 , +55 21 98888-7777'')
   \<and> distinct (extractPhones ''tel 11 3333-4444 , +55 21 98888-7777'')
   \<and> extractPhones ''tel 11 3333-4444 , +55 21 98888-7777''
       = [''(11) 3333-4444'', ''(21) 98888-7777'']
   \<and> phone_matches ''tel 11 3333-4444 , +55 21 98888-7777''
       = [''11 3333-4444'', ''21 98888-7777'', ''+55 21 98888-7777'', ''11 3333-4444'',
          ''+55 21 98888-7777'']"
proof -
  have a: "extractPhones ''tel 11 3333-4444 , +55 21 98888-7777''
          = [''(11) 3333-4444'', ''(21) 98888-7777'']"
    by code_simp
  have b: "phone_matches ''tel 11 3333-4444 , +55 21 98888-7777''
       = [''11 3333-4444'', ''21 98888-7777'', ''+55 21 98888-7777'', ''11 3333-4444'',
          ''+55 21 98888-7777'']"
    by code_simp
  note th = extractPhones_valid_distinct [of "''tel 11 3333-4444 , +55 21 98888-7777''"]
  show ?thesis
    using conjunct1 [OF th] conjunct1 [OF conjunct2 [OF th]] a b
    by (intro conjI) assumption+
qed

section \<open>Properties of the matcher\<close>

text \<open>A match consumes a piece of the text in front of it.\<close>

lemma run_suffix:
  "st' \<in> set (run r st) \<Longrightarrow> \<exists>w. snd st = w @ snd st' \<and> fst st' = rev w @ fst st"
proof (induction r st arbitrary: st' rule: run.induct)
  case (1 st)
  then show ?case by simp
next
  case (2 P st)
  show ?case
  proof (cases "snd st")
    case Nil
    with "2.prems" show ?thesis by simp
  next
    case (Cons c t)
    with "2.prems" have "st' = (c # fst st, t)" by (simp split: if_splits)
    with Cons show ?thesis by simp
  qed
next
  case (3 a b st)
  from "3.prems" obtain mid where m: "mid \<in> set (run a st)" and e: "st' \<in> set (run b mid)"
    by auto
  from "3.IH"(1) [OF m] obtain w1 where w1: "snd st = w1 @ snd mid" "fst mid = rev w1 @ fst st"
    by blast
  from "3.IH"(2) [OF m e] obtain w2 where w2: "snd mid = w2 @ snd st'" "fst st' = rev w2 @ fst mid"
    by blast
  show ?case using w1 w2 by (intro exI [of _ "w1 @ w2"]) simp
next
  case (4 a st)
  from "4.prems" have "st' = st \<or> st' \<in> set (run a st)" by auto
  then show ?case
  proof
    assume "st' = st"
    then show ?thesis by simp
  next
    assume "st' \<in> set (run a st)"
    then show ?thesis by (rule "4.IH")
  qed
next
  case (5 a st)
  from "5.prems" have "st' = st \<or> (\<exists>mid \<in> set (run a st). length (snd mid) < length (snd st) \<and> st' \<in> set (run (Star a) mid))"
    by (simp del: run.simps add: run.simps(5) [of a st] split: if_splits) blast
  then show ?case
  proof
    assume "st' = st"
    then show ?thesis by simp
  next
    assume "\<exists>mid \<in> set (run a st). length (snd mid) < length (snd st) \<and> st' \<in> set (run (Star a) mid)"
    then obtain mid where 2: "mid \<in> set (run a st)" "length (snd mid) < length (snd st)" "st' \<in> set (run (Star a) mid)"
      by blast
    from "5.IH"(1) [OF 2(1)] obtain w1 where w1: "snd st = w1 @ snd mid" "fst mid = rev w1 @ fst st"
      by blast
    from "5.IH"(2) [OF 2(1) 2(2) 2(3)] obtain w2 where w2: "snd mid = w2 @ snd st'" "fst st' = rev w2 @ fst mid"
      by blast
    show ?thesis using w1 w2 by (intro exI [of _ "w1 @ w2"]) simp
  qed
next
  case (6 st)
  then show ?case by (simp split: if_splits)
next
  case (7 st)
  then show ?case by (simp split: if_splits)
next
  case (8 st)
  then show ?case by (simp split: if_splits)
next
  case (9 a b st)
  then show ?case by auto
qed

lemma needs_digit_Cls: "needs_digit (Cls is_digit)"
  unfolding needs_digit_def
proof (intro allI impI)
  fix st st' :: mstate
  assume "st' \<in> set (run (Cls is_digit) st)"
  then show "\<exists>c\<in>set (snd st). is_digit c"
    by (cases "snd st") (auto split: if_splits)
qed

lemma needs_digit_Seq1: "needs_digit a \<Longrightarrow> needs_digit (Seq a b)"
  unfolding needs_digit_def
proof (intro allI impI)
  fix st st' :: mstate
  assume a: "\<forall>st st'. st' \<in> set (run a st) \<longrightarrow> (\<exists>c\<in>set (snd st). is_digit c)"
    and "st' \<in> set (run (Seq a b) st)"
  then obtain mid where m: "mid \<in> set (run a st)"
    by auto
  with a show "\<exists>c\<in>set (snd st). is_digit c" by blast
qed

lemma needs_digit_Seq2: "needs_digit b \<Longrightarrow> needs_digit (Seq a b)"
  unfolding needs_digit_def
proof (intro allI impI)
  fix st st' :: mstate
  assume b: "\<forall>st st'. st' \<in> set (run b st) \<longrightarrow> (\<exists>c\<in>set (snd st). is_digit c)"
    and "st' \<in> set (run (Seq a b) st)"
  then obtain mid where m: "mid \<in> set (run a st)" and e: "st' \<in> set (run b mid)"
    by auto
  from b e obtain c where c: "c \<in> set (snd mid)" "is_digit c" by blast
  from run_suffix [OF m] obtain w where "snd st = w @ snd mid" by blast
  with c show "\<exists>c\<in>set (snd st). is_digit c" by auto
qed

lemma needs_digit_patterns: "\<forall>r \<in> set store_phone_patterns. needs_digit r"
  by (simp add: store_phone_patterns_def phone_tail_def rx_range_def eval_nat_numeral
        needs_digit_Cls needs_digit_Seq1 needs_digit_Seq2)

lemma search_needs_digit:
  "needs_digit r \<Longrightarrow> search r (p, s) \<Longrightarrow> \<exists>c \<in> set s. is_digit c"
proof (induction s arbitrary: p)
  case Nil
  then obtain st' where "st' \<in> set (run r (p, []))"
    by (cases "run r (p, [])") auto
  with Nil.prems(1) have "\<exists>c\<in>set (snd (p, [])). is_digit c"
    unfolding needs_digit_def by blast
  then show ?case by simp
next
  case (Cons a s)
  from Cons.prems(2) consider "run r (p, a # s) \<noteq> []" | "search r (a # p, s)" by auto
  then show ?case
  proof cases
    case 1
    then obtain st' where "st' \<in> set (run r (p, a # s))" by (cases "run r (p, a # s)") auto
    with Cons.prems(1) have "\<exists>c\<in>set (snd (p, a # s)). is_digit c"
      unfolding needs_digit_def by blast
    then show ?thesis by simp
  next
    case 2
    from Cons.IH [OF Cons.prems(1) 2] show ?thesis by auto
  qed
qed

lemma set_trim: "set (trim s) \<subseteq> set s"
  unfolding trim_def by (auto dest!: set_dropWhileD)

lemma isValidPhone_digit: "isValidPhone p \<Longrightarrow> \<exists>c \<in> set p. is_digit c"
proof -
  assume "isValidPhone p"
  then obtain r where "r \<in> set store_phone_patterns" "rx_test r (trim p)"
    by (auto simp: isValidPhone_def Let_def list_ex_iff split: if_splits)
  then have "\<exists>c \<in> set (trim p). is_digit c"
    using needs_digit_patterns search_needs_digit unfolding rx_test_def by blast
  then show ?thesis using set_trim by blast
qed

lemma digit_kept: "is_digit c \<Longrightarrow> \<not> (is_space c \<or> c = CHR ''-'' \<or> c = CHR ''('' \<or> c = CHR '')'' \<or> c = CHR ''+'')"
  by (auto simp: is_digit_def is_space_def code_def)

lemma normalizePhone_digit: "\<exists>c \<in> set p. is_digit c \<Longrightarrow> normalizePhone p \<noteq> []"
  unfolding normalizePhone_def using digit_kept by (fastforce simp: filter_empty_conv)

lemma trim_Nil_iff: "trim s = [] \<longleftrightarrow> (\<forall>c \<in> set s. is_space c)"
proof
  assume "trim s = []"
  then have a: "\<forall>c \<in> set (dropWhile is_space s). is_space c"
    by (simp add: trim_def)
  have "dropWhile is_space s = []"
  proof (rule ccontr)
    assume n: "dropWhile is_space s \<noteq> []"
    then have "\<not> is_space (hd (dropWhile is_space s))" by (rule hd_dropWhile)
    moreover have "hd (dropWhile is_space s) \<in> set (dropWhile is_space s)" using n by simp
    ultimately show False using a by blast
  qed
  then show "\<forall>c \<in> set s. is_space c" by simp
next
  assume "\<forall>c \<in> set s. is_space c"
  then show "trim s = []" by (auto simp: trim_def dest: set_dropWhileD)
qed

lemma normalizePhone_nonempty: "normalizePhone p \<noteq> [] \<Longrightarrow> p \<noteq> [] \<and> trim p \<noteq> []"
  by (auto simp: trim_Nil_iff normalizePhone_def filter_empty_conv)

section \<open>Properties of the Contact Store\<close>

text \<open>
  C1 (as claimed, refuted): the record of the store's own test with an empty name and the
  valid phone \<open>(11) 99999-9999\<close> is not accepted; \<open>addContact\<close> returns false and appends
  nothing.
\<close>

theorem orphan_contact_rejected:
  "isValidPhone ''(11) 99999-9999'' \<and> validatePhone ''(11) 99999-9999'' \<and>
   addContact 0 \<lparr>name = [], phone = ''(11) 99999-9999'', email = [], source = [],
                 timestamp = Some (Date 0)\<rparr> \<lparr>contacts = [], session = None\<rparr>
     = (False, \<lparr>contacts = [], session = None\<rparr>)"
  by code_simp

text \<open>
  C1 (amended): for every record whose name is empty or blank, whatever its phone and
  e-mail, \<open>addContact\<close> returns false and leaves the store as it was.
\<close>

theorem addContact_rejects_empty_name:
  "name contact = [] \<or> trim (name contact) = [] \<Longrightarrow> addContact now contact dm = (False, dm)"
  by (simp add: addContact_def validateContact_def)

theorem addContact_rejects_empty_name_witness:
  "addContact 0 \<lparr>name = '' '', phone = ''(11) 99999-9999'', email = ''joao@example.com'',
                 source = [], timestamp = None\<rparr> \<lparr>contacts = [], session = None\<rparr>
     = (False, \<lparr>contacts = [], session = None\<rparr>)"
proof -
  have "trim '' '' = []" by code_simp
  then show ?thesis
    using addContact_rejects_empty_name
      [of "\<lparr>name = '' '', phone = ''(11) 99999-9999'', email = ''joao@example.com'',
            source = [], timestamp = None\<rparr>" 0 "\<lparr>contacts = [], session = None\<rparr>"]
    by simp
qed

text \<open>
  C2 (as claimed, refuted): \<open>addContact\<close> on the empty store accepts and stores a record
  whose phone \<open>(10) 99999-9990\<close> has area code 10 and fails the Brazilian rule of
  \<open>validatePhone\<close>; the store's tests add such phones and expect success.
\<close>

theorem brazilian_rule_not_enforced:
  "addContact 0 \<lparr>name = ''Test'', phone = ''(10) 99999-9990'', email = ''test@example.com'',
                 source = [], timestamp = Some (Date 0)\<rparr> \<lparr>contacts = [], session = None\<rparr>
     = (True, \<lparr>contacts = [\<lparr>name = ''Test'', phone = ''(10) 99999-9990'',
                              email = ''test@example.com'', source = [],
                              timestamp = Some (Date 0)\<rparr>], session = None\<rparr>)
   \<and> \<not> validatePhone ''(10) 99999-9990''"
  by code_simp

lemma validateContact_ok: "validateContact c \<Longrightarrow> contact_ok c"
  by (auto simp: validateContact_def contact_ok_def split: if_splits)

lemma contact_ok_timestamp [simp]: "contact_ok (c\<lparr>timestamp := t\<rparr>) = contact_ok c"
  by (simp add: contact_ok_def hasPhone_def hasEmail_def)

lemma addContact_store_ok: "store_ok dm \<Longrightarrow> store_ok (snd (addContact now c dm))"
  by (auto simp: addContact_def store_ok_def Let_def dest: validateContact_ok)

lemma updateContact_store_ok: "store_ok dm \<Longrightarrow> store_ok (snd (updateContact i c dm))"
  by (auto simp: updateContact_def store_ok_def list_all_iff dest!: validateContact_ok set_update_subset_insert [THEN subsetD])

lemma merge_contact_store_ok: "store_ok dm \<Longrightarrow> contact_ok c \<Longrightarrow> store_ok (merge_contact dm c)"
  by (simp add: merge_contact_def store_ok_def)

lemma foldl_merge_store_ok:
  "store_ok dm \<Longrightarrow> list_all contact_ok cs \<Longrightarrow> store_ok (foldl merge_contact dm cs)"
  by (induction cs arbitrary: dm) (simp_all add: merge_contact_store_ok)

lemma restoreSession_store_ok:
  "store_ok dm \<Longrightarrow> session_ok dm \<Longrightarrow> store_ok (snd (restoreSession strat dm))"
  by (auto simp: restoreSession_def session_ok_def foldl_merge_store_ok
           split: option.splits strategy.splits) (simp add: store_ok_def)

lemma importSessionData_store_ok:
  "store_ok dm \<Longrightarrow> list_all contact_ok cs \<Longrightarrow>
   store_ok (snd (importSessionData (Contacts cs) strat dm))"
  by (auto simp: importSessionData_def foldl_merge_store_ok split: strategy.splits)
     (simp add: store_ok_def)

text \<open>
  C2 (amended): \<open>addContact\<close> and \<open>updateContact\<close> preserve the invariant that every stored
  record's phone, if not blank, has one of the four formats of the store's \<open>isValidPhone\<close>
  and its e-mail, if not blank, the format of the store's \<open>isValidEmail\<close>.
  \<open>restoreSession\<close> and \<open>importSessionData\<close> validate nothing: they preserve the invariant
  when the records of the snapshot satisfy it, and with the strategy \<open>replace\<close> the
  imported list becomes the contents of the store as it is.
\<close>

theorem store_format_invariant:
  assumes "store_ok dm"
  shows "store_ok (snd (addContact now c dm))
       \<and> store_ok (snd (updateContact i c dm))
       \<and> (session_ok dm \<longrightarrow> store_ok (snd (restoreSession strat dm)))
       \<and> (list_all contact_ok cs \<longrightarrow> store_ok (snd (importSessionData (Contacts cs) strat dm)))
       \<and> snd (importSessionData (Contacts cs) Replace dm) = dm\<lparr>contacts := cs\<rparr>
       \<and> (session dm = Some \<lparr>session_contacts = Some scs, session_timestamp = ts\<rparr> \<longrightarrow>
            snd (restoreSession Replace dm) = dm\<lparr>contacts := scs\<rparr>)"
  using assms
  by (simp add: addContact_store_ok updateContact_store_ok restoreSession_store_ok
        importSessionData_store_ok) (simp add: importSessionData_def restoreSession_def)

theorem store_format_invariant_witness:
  "store_ok snapshot_store
   \<and> store_ok (snd (addContact 1 maria snapshot_store))
   \<and> store_ok (snd (updateContact 0 maria snapshot_store))
   \<and> store_ok (snd (restoreSession Merge snapshot_store))
   \<and> store_ok (snd (importSessionData (Contacts [maria]) Merge snapshot_store))
   \<and> snd (restoreSession Replace snapshot_store) = snapshot_store\<lparr>contacts := [joao2]\<rparr>"
proof -
  have a: "store_ok snapshot_store"
    by code_simp
  have b: "session_ok snapshot_store"
    by code_simp
  have c: "list_all contact_ok [maria]"
    by code_simp
  have d: "session snapshot_store
             = Some \<lparr>session_contacts = Some [joao2], session_timestamp = None\<rparr>"
    by (simp add: snapshot_store_def)
  show ?thesis
    using a b c d store_format_invariant [OF a, where c = maria and now = 1 and i = 0
        and strat = Merge and cs = "[maria]" and scs = "[joao2]" and ts = None]
    by simp
qed

lemma add_first:
  "validateContact c \<Longrightarrow> contacts dm = [] \<Longrightarrow>
   addContact now c dm =
     (True, dm\<lparr>contacts := [if timestamp c = None then c\<lparr>timestamp := Some (Date now)\<rparr>
                              else c]\<rparr>)"
  by (simp add: addContact_def isDuplicate_def isDuplicateInArray_def)

lemma same_contact_timestamp [simp]:
  "same_contact d (c\<lparr>timestamp := t\<rparr>) = same_contact d c"
  by (simp add: same_contact_def)

text \<open>
  C3 (as claimed, refuted): after \<open>mockContact\<close> went into the empty store, the valid record
  that differs from it by a second space inside the name only, so that it has the same
  name up to case and white space, the same phone and the same e-mail, is not rejected:
  \<open>addContact\<close> returns true and the count is 2.
\<close>

theorem inner_white_space_is_compared:
  "validateContact joao \<and> hasPhone joao
   \<and> addContact 0 joao empty_store = (True, empty_store\<lparr>contacts := [joao]\<rparr>)
   \<and> validateContact joao_spaced
   \<and> same_name_up_to_space joao_spaced joao
   \<and> same_phone joao_spaced joao
   \<and> addContact 1 joao_spaced (empty_store\<lparr>contacts := [joao]\<rparr>)
      = (True, empty_store\<lparr>contacts := [joao, joao_spaced]\<rparr>)
   \<and> getContactCount (empty_store\<lparr>contacts := [joao, joao_spaced]\<rparr>) = 2"
  by code_simp

text \<open>
  C3 (amended): for every valid record \<open>c\<close> with a name and a phone, \<open>addContact c\<close> succeeds
  on a store without contacts and leaves one record; a second \<open>addContact\<close> of any record
  whose name is the same up to case and leading and trailing white space (white space
  inside the name is compared as it is) and whose phone is the same once white space and
  the characters \<open>( ) - +\<close> are removed returns false and leaves the store, and its count of
  1, as they were; \<open>addContact\<close> of a valid record with the same name whose normalized phone
  and whose e-mail (lower case, trimmed) both differ returns true and the count is 2.
\<close>

theorem same_pair_twice:
  assumes "validateContact c" and "hasPhone c" and "contacts dm = []"
  shows "fst (addContact now c dm)
       \<and> getContactCount (snd (addContact now c dm)) = 1
       \<and> (same_name d c \<and> same_phone d c \<longrightarrow>
            addContact now' d (snd (addContact now c dm)) = (False, snd (addContact now c dm)))
       \<and> (validateContact e \<and> same_name e c \<and> \<not> same_phone e c \<and> \<not> same_email e c \<longrightarrow>
            fst (addContact now' e (snd (addContact now c dm)))
            \<and> getContactCount (snd (addContact now' e (snd (addContact now c dm)))) = 2)"
proof -
  define c' where "c' = (if timestamp c = None then c\<lparr>timestamp := Some (Date now)\<rparr> else c)"
  define dm1 where "dm1 = dm\<lparr>contacts := [c']\<rparr>"
  have first: "addContact now c dm = (True, dm1)"
    unfolding dm1_def c'_def by (rule add_first [OF assms(1,3)])
  have sc: "same_contact x c' = same_contact x c" for x
    by (simp add: c'_def)
  have vp: "isValidPhone (phone c)"
    using assms by (auto simp: validateContact_def split: if_splits)
  have np: "normalizePhone (phone c) \<noteq> []"
    by (rule normalizePhone_digit [OF isValidPhone_digit [OF vp]])
  have dup: "same_contact d c" if "same_name d c" "same_phone d c"
    using that np assms(2) normalizePhone_nonempty [of "phone d"]
    by (simp add: same_contact_def same_name_def same_phone_def hasPhone_def)
  have nodup: "\<not> same_contact e c" if "\<not> same_phone e c" "\<not> same_email e c"
    using that by (auto simp: same_contact_def same_phone_def same_email_def Let_def)
  have p1: "getContactCount dm1 = 1"
    by (simp add: getContactCount_def dm1_def)
  have p2: "addContact now' d dm1 = (False, dm1)" if "same_name d c" "same_phone d c"
    using dup [OF that]
    by (simp add: addContact_def isDuplicate_def isDuplicateInArray_def dm1_def sc)
  have p3: "fst (addContact now' e dm1) \<and> getContactCount (snd (addContact now' e dm1)) = 2"
    if "validateContact e" "\<not> same_phone e c" "\<not> same_email e c"
    using nodup [OF that(2,3)] that(1)
    by (simp add: addContact_def isDuplicate_def isDuplicateInArray_def dm1_def sc Let_def
          getContactCount_def)
  show ?thesis
    unfolding first using p1 p2 p3 by simp
qed

text \<open>The second record of the instance is valid, differs from the first in the spelling
  of the name and of the phone and has no e-mail: it is turned down for its name and its
  normalized phone.\<close>

theorem same_pair_twice_witness:
  "fst (addContact 0 joao empty_store)
   \<and> getContactCount (snd (addContact 0 joao empty_store)) = 1
   \<and> validateContact joao_respelled
   \<and> name joao_respelled \<noteq> name joao \<and> phone joao_respelled \<noteq> phone joao
   \<and> email joao_respelled = []
   \<and> addContact 1 joao_respelled (snd (addContact 0 joao empty_store))
      = (False, snd (addContact 0 joao empty_store))
   \<and> fst (addContact 1 joao2 (snd (addContact 0 joao empty_store)))
   \<and> getContactCount (snd (addContact 1 joao2 (snd (addContact 0 joao empty_store)))) = 2"
proof -
  have a: "validateContact joao" by code_simp
  have b: "hasPhone joao" by code_simp
  have c: "same_name joao_respelled joao \<and> same_phone joao_respelled joao"
    by code_simp
  have d: "validateContact joao2 \<and> same_name joao2 joao \<and> \<not> same_phone joao2 joao
           \<and> \<not> same_email joao2 joao"
    by code_simp
  have e: "contacts empty_store = []" by (simp add: empty_store_def)
  have f: "validateContact joao_respelled
           \<and> name joao_respelled \<noteq> name joao \<and> phone joao_respelled \<noteq> phone joao
           \<and> email joao_respelled = []"
    by code_simp
  show ?thesis
    using c d f same_pair_twice [OF a b e, where now = 0 and now' = 1 and e = joao2
        and d = joao_respelled]
    by simp
qed

lemma nth_in_splice1:
  assumes "j < length xs" and "j \<noteq> i"
  shows "xs ! j \<in> set (splice1 i xs)"
proof (cases "j < i")
  case True
  then have "xs ! j \<in> set (take i xs)"
    using assms(1) by (auto simp: in_set_conv_nth intro!: exI [of _ j])
  then show ?thesis by (simp add: splice1_def)
next
  case False
  with assms have "Suc i \<le> j" by simp
  then have eq: "xs ! j = drop (Suc i) xs ! (j - Suc i)" using assms(1) by simp
  have "j - Suc i < length (drop (Suc i) xs)" using assms(1) \<open>Suc i \<le> j\<close> by simp
  then have "drop (Suc i) xs ! (j - Suc i) \<in> set (drop (Suc i) xs)" by (rule nth_mem)
  then have "xs ! j \<in> set (drop (Suc i) xs)" unfolding eq .
  then show ?thesis by (simp add: splice1_def)
qed

text \<open>
  C4: for every store, index \<open>i\<close> in range and record \<open>x\<close> that the duplicate rule (same
  name, and matching phone or e-mail) identifies with the record in another slot \<open>j\<close>,
  \<open>updateContact i x\<close> returns false and the store, slot \<open>i\<close> included, is unchanged.
\<close>

theorem update_collision_rejected:
  assumes "0 \<le> i" and "i < int (length (contacts dm))"
    and "j < length (contacts dm)" and "int j \<noteq> i"
    and "same_contact x (contacts dm ! j)"
  shows "updateContact i x dm = (False, dm)"
proof -
  have "j \<noteq> nat i" using assms(1,4) by auto
  then have "contacts dm ! j \<in> set (splice1 (nat i) (contacts dm))"
    using assms(3) by (intro nth_in_splice1)
  then have "isDuplicateInArray x (splice1 (nat i) (contacts dm))"
    using assms(5) by (auto simp: isDuplicateInArray_def list_ex_iff)
  then show ?thesis by (simp add: updateContact_def)
qed


theorem update_collision_rejected_witness:
  "updateContact 1 (joao\<lparr>email := []\<rparr>) \<lparr>contacts = [joao, maria], session = None\<rparr>
     = (False, \<lparr>contacts = [joao, maria], session = None\<rparr>)"
proof -
  have a: "same_contact (joao\<lparr>email := []\<rparr>) (contacts \<lparr>contacts = [joao, maria], session = None\<rparr> ! 0)"
    by code_simp
  show ?thesis
    using update_collision_rejected
      [where i = 1 and j = 0 and dm = "\<lparr>contacts = [joao, maria], session = None\<rparr>"
         and x = "joao\<lparr>email := []\<rparr>", OF _ _ _ _ a]
    by simp
qed

section \<open>The accessors and the object store\<close>

text \<open>
  C5 (the code departs from the claim): \<open>getAllContacts\<close> returns a new array, at address 2,
  whose element is the address 1 of the store's own record; assigning to the \<open>name\<close> of
  that element changes the record the store holds.
\<close>

theorem getAllContacts_shares_records:
  "store_view heap0 0 = Some [Some joao]
   \<and> fst (getAllContacts 0 heap0) = Some 2
   \<and> arrs (snd (getAllContacts 0 heap0)) 2 = Some [1]
   \<and> store_view (set_name 1 ''X'' (snd (getAllContacts 0 heap0))) 0 = Some [Some (joao\<lparr>name := ''X''\<rparr>)]"
  by (simp add: heap0_def store_view_def getAllContacts_def set_name_def)

text \<open>What the two accessors do protect: the array that \<open>getAllContacts\<close> returns and the
  record that \<open>getContact\<close> returns are new objects, and assigning to a slot of the one or
  to a field of the other leaves the store as it was.\<close>

lemma getAllContacts_frame:
  assumes "arrs h dm = Some elems" and "dm < fresh h"
  shows "fst (getAllContacts dm h) = Some (fresh h)
       \<and> arrs (snd (getAllContacts dm h)) (fresh h) = Some elems
       \<and> store_view (set_slot (fresh h) i r (snd (getAllContacts dm h))) dm = store_view h dm"
  using assms by (simp add: getAllContacts_def set_slot_def store_view_def)

lemma getContact_frame:
  assumes "arrs h dm = Some elems" and "0 \<le> index" and "index < int (length elems)"
    and "recs h (elems ! nat index) = Some c" and "\<forall>a \<in> set elems. a < fresh h"
  shows "fst (getContact dm index h) = Some (fresh h)
       \<and> recs (snd (getContact dm index h)) (fresh h) = Some c
       \<and> store_view (set_name (fresh h) v (snd (getContact dm index h))) dm = store_view h dm"
proof -
  have "map ((recs h)(fresh h \<mapsto> c\<lparr>name := v\<rparr>)) elems = map (recs h) elems"
    using assms(5) by (intro map_cong) auto
  then show ?thesis
    using assms(1-4) by (simp add: getContact_def set_name_def store_view_def)
qed

section \<open>Deduplication of the candidates\<close>

text \<open>The comparison of phones in \<open>partial_match\<close> is exact; on the canonical strings that
  the extractor produces it is the comparison of their digits (lemma
  \<open>canonical_phone_compare\<close>).\<close>

text \<open>
  C6 (the code departs from the claim): the two text blocks \<open>joao@email.com\<close> and
  \<open>Joao Silva - joao@email.com\<close> yield two candidates that share the e-mail and have the
  same key, so the second is skipped before the merge loop and the survivor keeps its
  empty name.  When the keys differ (the second candidate also has a phone) the merge loop
  runs and the survivor inherits name and phone.
\<close>

theorem removeDuplicateContacts_drops_name:
  "extractContactsFromText ''https://example.com'' 0 ''joao@email.com'' = [orphan]
   \<and> extractContactsFromText ''https://example.com'' 0 ''Joao Silva - joao@email.com''
       = [orphan\<lparr>name := ''Joao Silva''\<rparr>]
   \<and> removeDuplicateContacts [orphan, orphan\<lparr>name := ''Joao Silva''\<rparr>] = [orphan]
   \<and> removeDuplicateContacts
         [orphan, orphan\<lparr>name := ''Joao Silva'', phone := ''(11) 99999-9999''\<rparr>]
       = [orphan\<lparr>name := ''Joao Silva'', phone := ''(11) 99999-9999''\<rparr>]"
  by code_simp

text \<open>The scenario of the claim: the two blocks give one record with the three fields.\<close>

lemma scenario_three_merged:
  "scan_texts ''https://example.com'' 0
     [''Jo'' @ [CHR 0xE3] @ ''o Silva - joao@email.com - (11) 99999-9999'',
      ''Jo'' @ [CHR 0xE3] @ ''o Silva - joao@email.com'']
   = [\<lparr>name = ''Jo'' @ [CHR 0xE3] @ ''o Silva'', phone = ''(11) 99999-9999'',
        email = ''joao@email.com'', source = ''https://example.com'',
        timestamp = Some (Date 0)\<rparr>]"
  by code_simp

section \<open>Cleaning up old sessions and contacts\<close>

lemma contacts_clearSession [simp]: "contacts (clearSession dm) = contacts dm"
  by (simp add: clearSession_def)

lemma ToIntegerOrInfinity_of_int [simp]: "ToIntegerOrInfinity (of_int n) = n"
  by (simp add: ToIntegerOrInfinity_def)

text \<open>
  In a zone whose offset never changes, and for a whole number \<open>n\<close> of days, the cut-off of
  \<open>cleanupOldContacts\<close> lies \<open>n\<close> days of 86400000 ms before the clock reading.
\<close>

lemma setDate_whole_days:
  assumes "\<And>t. offset_at_utc z t = k" and "\<And>t. offset_at_local z t = k"
  shows "setDate z now (minus_from (of_int (getDate z now)) (Num (of_int n)))
         = time_clip (now - n * msPerDay)"
proof -
  have "(now + k) div msPerDay * msPerDay + (now + k) mod msPerDay = now + k"
    by simp
  then have "((now + k) div msPerDay - n) * msPerDay + (now + k) mod msPerDay - k
             = now - n * msPerDay"
    by (simp add: algebra_simps)
  then show ?thesis
    by (simp add: setDate_def minus_from_def getDate_def LocalTime_def UTC_def Let_def assms
          flip: of_int_diff)
qed

lemma contacts_cleanupOldSessions:
  "contacts (cleanupOldSessions z h now1 now2 dm)
   = contacts (cleanupOldContacts z (times h 24) now2 dm)"
  by (simp add: cleanupOldSessions_def cleanupOldContacts_def Let_def split: option.splits)

lemma cleanupOldSessions_whole_hours:
  assumes "\<And>t. offset_at_utc z t = k" and "\<And>t. offset_at_local z t = k"
  shows "contacts (cleanupOldSessions z (Num (of_int h)) now1 now2 dm)
         = filter (\<lambda>c. case timestamp c of
                          None \<Rightarrow> False
                        | Some t \<Rightarrow> date_gt t (time_clip (now2 - h * 24 * msPerDay)))
                  (contacts dm)"
proof -
  have t: "times (Num (of_int h)) 24 = Num (of_int (h * 24))"
    by (simp add: times_def)
  show ?thesis
    unfolding contacts_cleanupOldSessions t cleanupOldContacts_def Let_def
      setDate_whole_days [OF assms]
    by simp
qed

text \<open>The session snapshot goes when its age in whole minutes exceeds \<open>60 h\<close>.\<close>

lemma cleanupOldSessions_session:
  "session (cleanupOldSessions z h now1 now2 dm)
   = (case getSessionAge now1 dm of
        None \<Rightarrow> session dm
      | Some age \<Rightarrow> if age_exceeds age (times h 60) then None else session dm)"
  by (simp add: cleanupOldSessions_def cleanupOldContacts_def Let_def clearSession_def
        split: option.splits)

text \<open>A limit that is not a finite number removes every contact.\<close>

lemma cleanupOldSessions_not_finite:
  assumes "h = NaN \<or> h = PosInfinity \<or> h = NegInfinity"
  shows "contacts (cleanupOldSessions z h now1 now2 dm) = []"
  using assms
  by (auto simp: cleanupOldSessions_def cleanupOldContacts_def Let_def setDate_def times_def
        minus_from_def filter_empty_conv split: option.splits)

text \<open>
  Where the offset changes between the cut-off and the clock reading, the cut-off keeps
  the local time of day: on 3 November 2026, 12:00 UTC, the cut-off of 24 days is an hour
  earlier than 24 days of 86400000 ms before.
\<close>

lemma cutoff_across_summer_time:
  "setDate berlin_2026 1793707200000
     (minus_from (of_int (getDate berlin_2026 1793707200000)) (Num 24))
   = Date (1793707200000 - 24 * msPerDay - 3600000)"
  by code_simp

text \<open>The fraction of a day is dropped from the day of the month the subtraction gives:
  on the 3rd, two and a half days make the cut-off three days back.\<close>

lemma cutoff_fraction_of_day:
  "getDate utc_zone 1793707200000 = 3
   \<and> setDate utc_zone 1793707200000
        (minus_from (of_int (getDate utc_zone 1793707200000)) (Num (5 / 2)))
      = Date (1793707200000 - 3 * msPerDay)"
  by code_simp

text \<open>
  C10: the call \<open>cleanupOldSessions()\<close>, with the default \<open>maxAgeHours = 24\<close>, in UTC on a
  store with a contact that is 30 days old, one that is 600 days old and one without
  timestamp, and a session snapshot 1000 days old: the snapshot is cleared and the contact
  of 30 days stays, although it is older than 24 days.  The limit of 24 hours reaches
  \<open>cleanupOldContacts\<close> as 576 days: of two contacts 575 and 576 days old the first one
  stays.
\<close>

theorem default_cutoff_is_576_days:
  "cleanupOldSessions utc_zone default_maxAgeHours (1000 * 86400000) (1000 * 86400000) old_store
   = \<lparr>contacts = [joao\<lparr>timestamp := Some (Date (970 * 86400000))\<rparr>], session = None\<rparr>
   \<and> contacts (cleanupOldSessions utc_zone default_maxAgeHours (1000 * 86400000) (1000 * 86400000)
        \<lparr>contacts = [joao\<lparr>timestamp := Some (Date (425 * 86400000))\<rparr>,
                     maria\<lparr>timestamp := Some (Date (424 * 86400000))\<rparr>], session = None\<rparr>)
     = [joao\<lparr>timestamp := Some (Date (425 * 86400000))\<rparr>]"
  by code_simp

section \<open>Greedy matching of a character class\<close>


lemma run_Star_Cls_Nil: "run (Star (Cls P)) (p, []) = [(p, [])]"
  by (subst run.simps(5)) simp

lemma run_Star_Cls_Cons:
  "run (Star (Cls P)) (p, c # s) =
     (if P c then run (Star (Cls P)) (c # p, s) @ [(p, c # s)] else [(p, c # s)])"
  by (subst run.simps(5)) simp

lemma concat_map_concat:
  "concat (map f (concat (map g xs))) = concat (map (\<lambda>x. concat (map f (g x))) xs)"
  by (induction xs) auto

lemma run_Seq_fun: "run (Seq b c) = (\<lambda>st. concat (map (run c) (run b st)))"
  by (rule ext) simp

lemma run_Seq_assoc: "run (Seq (Seq a b) c) st = run (Seq a (Seq b c)) st"
  by (simp add: concat_map_concat run_Seq_fun [of b c])

lemma run_Seq_Eps: "run (Seq Eps r) st = run r st"
  by simp

lemma run_Seq_Nil: "run a st = [] \<Longrightarrow> run (Seq a b) st = []"
  by simp

lemma run_Seq_Cls_Cons: "run (Seq (Cls P) r) (p, c # s) = (if P c then run r (c # p, s) else [])"
  by simp

lemma run_Seq_Cls_Nil: "run (Seq (Cls P) r) (p, []) = []"
  by simp

lemma star_seq_Nil: "run (Seq (Star (Cls P)) q) (p, []) = run q (p, [])"
  by (simp add: run_Star_Cls_Nil)

lemma star_seq_Cons:
  "run (Seq (Star (Cls P)) q) (p, c # s) =
     (if P c then run (Seq (Star (Cls P)) q) (c # p, s) @ run q (p, c # s) else run q (p, c # s))"
  by (simp add: run_Star_Cls_Cons)

declare run.simps(3) [simp del]

text \<open>A run of the class that ends before the character c, which the class excludes\<close>
lemma star_then_chr:
  assumes "list_all P u" and "\<not> P c"
  shows "run (Seq (Star (Cls P)) (Seq (rx_chr c) r)) (p, u @ c # s) = run r (c # rev u @ p, s)"
  using assms(1)
proof (induction u arbitrary: p)
  case Nil
  show ?case using assms(2) by (simp add: star_seq_Cons rx_chr_def run_Seq_Cls_Cons)
next
  case (Cons x u)
  then have "P x" "list_all P u" by simp_all
  moreover have "x \<noteq> c" using \<open>P x\<close> assms(2) by auto
  ultimately show ?case
    using Cons.IH [of "x # p"] by (simp add: star_seq_Cons rx_chr_def run_Seq_Cls_Cons) 
qed

lemma star_seq_prefix:
  "list_all P u \<Longrightarrow>
   \<exists>Z. run (Seq (Star (Cls P)) q) (p, u @ v) = run (Seq (Star (Cls P)) q) (rev u @ p, v) @ Z"
proof (induction u arbitrary: p)
  case Nil
  show ?case by simp
next
  case (Cons x u)
  then have "P x" "list_all P u" by simp_all
  from Cons.IH [OF this(2), of "x # p"] obtain Z where
    "run (Seq (Star (Cls P)) q) (x # p, u @ v) = run (Seq (Star (Cls P)) q) (rev u @ x # p, v) @ Z"
    by blast
  then show ?case using \<open>P x\<close> by (simp add: star_seq_Cons)
qed

lemma star_seq_all_fail:
  assumes "list_all P v"
    and "\<And>k. 1 \<le> k \<Longrightarrow> k \<le> length v \<Longrightarrow> run q (rev (take k v) @ p, drop k v) = []"
  shows "run (Seq (Star (Cls P)) q) (p, v) = run q (p, v)"
  using assms
proof (induction v arbitrary: p)
  case Nil
  show ?case by (simp add: star_seq_Nil)
next
  case (Cons x v)
  have "P x" "list_all P v" using Cons.prems(1) by simp_all
  have a: "run q (rev (take k v) @ x # p, drop k v) = []" if "1 \<le> k" "k \<le> length v" for k
    using Cons.prems(2) [of "Suc k"] that by simp
  have b: "run q (x # p, v) = []"
    using Cons.prems(2) [of 1] by simp
  have "run (Seq (Star (Cls P)) q) (x # p, v) = run q (x # p, v)"
    by (rule Cons.IH [OF \<open>list_all P v\<close> a])
  then show ?case using \<open>P x\<close> b by (simp add: star_seq_Cons)
qed

lemma star_seq_to_end:
  assumes "list_all P v"
    and "\<And>k. k < length v \<Longrightarrow> run q (rev (take k v) @ p, drop k v) = []"
  shows "run (Seq (Star (Cls P)) q) (p, v) = run q (rev v @ p, [])"
  using assms
proof (induction v arbitrary: p)
  case Nil
  show ?case by (simp add: star_seq_Nil)
next
  case (Cons x v)
  have "P x" "list_all P v" using Cons.prems(1) by simp_all
  have a: "run q (rev (take k v) @ x # p, drop k v) = []" if "k < length v" for k
    using Cons.prems(2) [of "Suc k"] that by simp
  have b: "run q (p, x # v) = []"
    using Cons.prems(2) [of 0] by simp
  have "run (Seq (Star (Cls P)) q) (x # p, v) = run q (rev v @ x # p, [])"
    by (rule Cons.IH [OF \<open>list_all P v\<close> a])
  then show ?case using \<open>P x\<close> b by (simp add: star_seq_Cons)
qed

section \<open>The e-mail expressions\<close>

lemma alpha_not_dot: "is_alpha x \<Longrightarrow> x \<noteq> CHR ''.''"
  by (auto simp: is_alpha_def code_def)

lemma alpha_domain: "is_alpha x \<Longrightarrow> is_domain x"
  by (simp add: is_domain_def)

lemma alpha_word: "is_alpha x \<Longrightarrow> is_word x"
  by (simp add: is_word_def)

lemma at_not_local: "\<not> is_local CHR ''@''"
  by (simp add: is_local_def is_alpha_def is_digit_def code_def)

lemma at_not_domain: "\<not> is_domain CHR ''@''"
  by (simp add: is_domain_def is_alpha_def is_digit_def code_def)

lemma dot_domain: "is_domain CHR ''.''"
  by (simp add: is_domain_def)

lemma hd_rev_take:
  assumes "list_all P v" and "P a"
  shows "P (hd (rev (take k v) @ a # q))"
proof (cases "take k v = []")
  case True
  show ?thesis unfolding True by (simp add: assms(2))
next
  case False
  then have "hd (rev (take k v) @ a # q) = last (take k v)"
    by (simp add: hd_rev)
  moreover have "last (take k v) \<in> set v"
    using False by (meson in_set_takeD last_in_set)
  ultimately show ?thesis using assms(1) by (simp add: list_all_iff)
qed

text \<open>The tail: at least two letters, then the final assertion\<close>
lemma letters_run:
  assumes "list_all is_alpha t'" "is_alpha a1" "is_alpha a2"
    and Kfail: "\<And>q s. q \<noteq> [] \<Longrightarrow> is_alpha (hd q) \<Longrightarrow> s \<noteq> [] \<Longrightarrow> is_alpha (hd s) \<Longrightarrow> run K (q, s) = []"
    and Kend: "\<And>q. q \<noteq> [] \<Longrightarrow> is_alpha (hd q) \<Longrightarrow> run K (q, []) = [(q, [])]"
  shows "run (Seq (rx_atleast 2 (Cls is_alpha)) K) (p, a1 # a2 # t')
           = [(rev t' @ a2 # a1 # p, [])]"
proof -
  have fail: "run K (rev (take k t') @ a2 # a1 # p, drop k t') = []" if "k < length t'" for k
  proof (rule Kfail)
    show "rev (take k t') @ a2 # a1 # p \<noteq> []" by simp
    show "is_alpha (hd (rev (take k t') @ a2 # a1 # p))"
      by (rule hd_rev_take [OF assms(1) assms(3)])
    show "drop k t' \<noteq> []" using that by simp
    have "hd (drop k t') \<in> set t'"
      using that by (metis hd_drop_conv_nth nth_mem)
    then show "is_alpha (hd (drop k t'))" using assms(1) by (simp add: list_all_iff)
  qed
  have "is_alpha (hd (rev t' @ a2 # a1 # p))"
    using hd_rev_take [OF assms(1) assms(3), of "length t'" "a1 # p"] by simp
  then have end_ok: "run K (rev t' @ a2 # a1 # p, []) = [(rev t' @ a2 # a1 # p, [])]"
    by (intro Kend) simp_all
  have "run (Seq (rx_atleast 2 (Cls is_alpha)) K) (p, a1 # a2 # t')
      = run (Seq (Star (Cls is_alpha)) K) (a2 # a1 # p, t')"
    using assms(2,3)
    by (simp add: rx_atleast_def eval_nat_numeral run_Seq_assoc run_Seq_Cls_Cons run_Seq_Eps)
  also have "\<dots> = run K (rev t' @ a2 # a1 # p, [])"
    by (rule star_seq_to_end [OF assms(1) fail])
  finally show ?thesis using end_ok by simp
qed

lemma email_body_run:
  assumes l: "list_all is_local (x # l')"
    and d: "list_all is_domain (y # d')"
    and t: "list_all is_alpha (a1 # a2 # t')"
    and Kfail: "\<And>q s. q \<noteq> [] \<Longrightarrow> is_alpha (hd q) \<Longrightarrow> s \<noteq> [] \<Longrightarrow> is_alpha (hd s) \<Longrightarrow> run K (q, s) = []"
    and Kend: "\<And>q. q \<noteq> [] \<Longrightarrow> is_alpha (hd q) \<Longrightarrow> run K (q, []) = [(q, [])]"
  shows "\<exists>Z. run (rx_seq (email_body @ [K]))
                 (p, (x # l') @ CHR ''@'' # (y # d') @ CHR ''.'' # (a1 # a2 # t'))
            = (rev ((x # l') @ CHR ''@'' # (y # d') @ CHR ''.'' # (a1 # a2 # t')) @ p, []) # Z"
proof -
  let ?t = "a1 # a2 # t'"
  let ?R4 = "Seq (rx_atleast 2 (Cls is_alpha)) K"
  let ?R3 = "Seq (rx_chr CHR ''.'') ?R4"
  let ?R2 = "Seq (rx_plus (Cls is_domain)) ?R3"
  let ?p2 = "CHR ''@'' # rev l' @ x # p"
  let ?p3 = "rev d' @ y # ?p2"
  have s1: "run (rx_seq (email_body @ [K])) (p, (x # l') @ CHR ''@'' # (y # d') @ CHR ''.'' # ?t)
          = run ?R2 (?p2, (y # d') @ CHR ''.'' # ?t)"
    using l star_then_chr [of is_local l' "CHR ''@''" ?R2 "x # p" "(y # d') @ CHR ''.'' # ?t"]
    by (simp add: email_body_def rx_plus_def run_Seq_assoc run_Seq_Cls_Cons at_not_local)
  have s2: "run ?R2 (?p2, (y # d') @ CHR ''.'' # ?t)
          = run (Seq (Star (Cls is_domain)) ?R3) (y # ?p2, d' @ CHR ''.'' # ?t)"
    using d by (simp add: rx_plus_def run_Seq_assoc run_Seq_Cls_Cons)
  obtain Z where s3: "run (Seq (Star (Cls is_domain)) ?R3) (y # ?p2, d' @ CHR ''.'' # ?t)
          = run (Seq (Star (Cls is_domain)) ?R3) (?p3, CHR ''.'' # ?t) @ Z"
    using star_seq_prefix [of is_domain d' ?R3 "y # ?p2" "CHR ''.'' # ?t"] d by auto
  have dom: "list_all is_domain (CHR ''.'' # ?t)"
    using t by (auto simp: dot_domain list_all_iff alpha_domain)
  have fail: "run ?R3 (rev (take k (CHR ''.'' # ?t)) @ ?p3, drop k (CHR ''.'' # ?t)) = []"
    if k1: "1 \<le> k" and k2: "k \<le> length (CHR ''.'' # ?t)" for k
  proof (cases "drop k (CHR ''.'' # ?t)")
    case Nil
    then show ?thesis by (simp add: rx_chr_def run_Seq_Cls_Nil)
  next
    case (Cons c s)
    obtain k' where k': "k = Suc k'" using k1 by (cases k) auto
    then have "c \<in> set ?t" using Cons by (metis drop_Suc_Cons in_set_dropD list.set_intros(1))
    then have "c \<noteq> CHR ''.''" using t alpha_not_dot by (auto simp: list_all_iff)
    then show ?thesis unfolding Cons by (simp add: rx_chr_def run_Seq_Cls_Cons)
  qed
  have s4: "run (Seq (Star (Cls is_domain)) ?R3) (?p3, CHR ''.'' # ?t) = run ?R3 (?p3, CHR ''.'' # ?t)"
    by (rule star_seq_all_fail [OF dom fail])
  have s5: "run ?R3 (?p3, CHR ''.'' # ?t) = run ?R4 (CHR ''.'' # ?p3, ?t)"
    by (simp add: rx_chr_def run_Seq_Cls_Cons)
  have s6: "run ?R4 (CHR ''.'' # ?p3, ?t) = [(rev t' @ a2 # a1 # CHR ''.'' # ?p3, [])]"
    using t by (intro letters_run Kfail Kend) simp_all
  show ?thesis
    unfolding s1 s2 s3 s4 s5 s6 by simp
qed

lemma Eol_fail: "s \<noteq> [] \<Longrightarrow> run Eol (q, s) = []"
  by simp

lemma Eol_end: "run Eol (q, []) = [(q, [])]"
  by simp

lemma WordB_fail:
  "q \<noteq> [] \<Longrightarrow> is_alpha (hd q) \<Longrightarrow> s \<noteq> [] \<Longrightarrow> is_alpha (hd s) \<Longrightarrow> run WordB (q, s) = []"
  by (cases q; cases s) (simp_all add: at_word_boundary_def alpha_word)

lemma WordB_end: "q \<noteq> [] \<Longrightarrow> is_alpha (hd q) \<Longrightarrow> run WordB (q, []) = [(q, [])]"
  by (cases q) (simp_all add: at_word_boundary_def alpha_word)

lemma in_run_Seq:
  "st' \<in> set (run (Seq a b) st) \<longleftrightarrow> (\<exists>mid \<in> set (run a st). st' \<in> set (run b mid))"
  by (simp add: run.simps(3))

lemma in_run_Cls:
  "st' \<in> set (run (Cls P) (p, s)) \<longleftrightarrow> (\<exists>c t. s = c # t \<and> P c \<and> st' = (c # p, t))"
  by (cases s) auto

lemma in_run_Star_Cls:
  "st' \<in> set (run (Star (Cls P)) (p, s)) \<Longrightarrow>
   \<exists>w. list_all P w \<and> s = w @ snd st' \<and> fst st' = rev w @ p"
proof (induction s arbitrary: p)
  case Nil
  then show ?case by (simp add: run_Star_Cls_Nil)
next
  case (Cons c s)
  show ?case
  proof (cases "st' = (p, c # s)")
    case True
    then show ?thesis by simp
  next
    case False
    with Cons.prems have pc: "P c" and m: "st' \<in> set (run (Star (Cls P)) (c # p, s))"
      by (auto simp: run_Star_Cls_Cons split: if_splits)
    from Cons.IH [OF m] obtain w where "list_all P w" "s = w @ snd st'" "fst st' = rev w @ c # p"
      by blast
    then show ?thesis using pc by (intro exI [of _ "c # w"]) simp
  qed
qed

lemma in_run_plus_Cls:
  assumes "st' \<in> set (run (rx_plus (Cls P)) (p, s))"
  shows "\<exists>c w. list_all P (c # w) \<and> s = (c # w) @ snd st' \<and> fst st' = rev (c # w) @ p"
proof -
  from assms obtain c t where c: "s = c # t" "P c"
    and m: "st' \<in> set (run (Star (Cls P)) (c # p, t))"
    by (auto simp: rx_plus_def in_run_Seq in_run_Cls)
  from in_run_Star_Cls [OF m] obtain w where "list_all P w" "t = w @ snd st'" "fst st' = rev w @ c # p"
    by blast
  then show ?thesis using c by (intro exI [of _ c] exI [of _ w]) simp
qed

lemma in_run_atleast2_Cls:
  assumes "st' \<in> set (run (rx_atleast 2 (Cls P)) (p, s))"
  shows "\<exists>a b w. list_all P (a # b # w) \<and> s = (a # b # w) @ snd st'
           \<and> fst st' = rev (a # b # w) @ p"
proof -
  from assms obtain a b t where c: "s = a # b # t" "P a" "P b"
    and m: "st' \<in> set (run (Star (Cls P)) (b # a # p, t))"
    by (auto simp: rx_atleast_def eval_nat_numeral in_run_Seq in_run_Cls)
  from in_run_Star_Cls [OF m] obtain w where "list_all P w" "t = w @ snd st'" "fst st' = rev w @ b # a # p"
    by blast
  then show ?thesis using c by (intro exI [of _ a] exI [of _ b] exI [of _ w]) simp
qed

text \<open>What the anchored expression accepts\<close>

lemma emailRegex_run_shape:
  assumes "st' \<in> set (run emailRegex (p, e))"
  shows "\<exists>x l y d a b t. list_all is_local (x # l) \<and> list_all is_domain (y # d)
           \<and> list_all is_alpha (a # b # t)
           \<and> e = (x # l) @ CHR ''@'' # (y # d) @ CHR ''.'' # (a # b # t)"
proof -
  have unf: "emailRegex = Seq Bol (Seq (rx_plus (Cls is_local)) (Seq (rx_chr CHR ''@'')
               (Seq (rx_plus (Cls is_domain)) (Seq (rx_chr CHR ''.'')
               (Seq (rx_atleast 2 (Cls is_alpha)) Eol)))))"
    by (simp add: emailRegex_def email_body_def)
  from assms [unfolded unf in_run_Seq] obtain m1 m2 m3 m4 m5 m6 where
    m1: "m1 \<in> set (run Bol (p, e))"
    and m2: "m2 \<in> set (run (rx_plus (Cls is_local)) m1)"
    and m3: "m3 \<in> set (run (rx_chr CHR ''@'') m2)"
    and m4: "m4 \<in> set (run (rx_plus (Cls is_domain)) m3)"
    and m5: "m5 \<in> set (run (rx_chr CHR ''.'') m4)"
    and m6: "m6 \<in> set (run (rx_atleast 2 (Cls is_alpha)) m5)"
    and m7: "st' \<in> set (run Eol m6)"
    by blast
  from m1 have e1: "m1 = (p, e)" by (simp split: if_splits)
  from in_run_plus_Cls [OF m2 [unfolded e1]] obtain x l where
    l: "list_all is_local (x # l)" "e = (x # l) @ snd m2"
    by blast
  from m3 have e3: "snd m2 = CHR ''@'' # snd m3"
    by (cases m2) (auto simp: in_run_Cls rx_chr_def)
  from in_run_plus_Cls [of m4 is_domain "fst m3" "snd m3"] m4 obtain y d where
    d: "list_all is_domain (y # d)" "snd m3 = (y # d) @ snd m4"
    by auto
  from m5 have e5: "snd m4 = CHR ''.'' # snd m5"
    by (cases m4) (auto simp: in_run_Cls rx_chr_def)
  from in_run_atleast2_Cls [of m6 is_alpha "fst m5" "snd m5"] m6 obtain a b t where
    t: "list_all is_alpha (a # b # t)" "snd m5 = (a # b # t) @ snd m6"
    by auto
  from m7 have "snd m6 = []" by (simp split: if_splits)
  with l d t e3 e5 show ?thesis
    by (intro exI [of _ x] exI [of _ l] exI [of _ y] exI [of _ d] exI [of _ a] exI [of _ b]
          exI [of _ t]) simp
qed

lemma search_Bol:
  "p \<noteq> [] \<Longrightarrow> \<not> search (Seq Bol r) (p, s)"
  by (induction s arbitrary: p) (simp_all add: run.simps(3))

lemma rx_test_emailRegex_shape:
  assumes "rx_test emailRegex e"
  shows "\<exists>x l y d a b t. list_all is_local (x # l) \<and> list_all is_domain (y # d)
           \<and> list_all is_alpha (a # b # t)
           \<and> e = (x # l) @ CHR ''@'' # (y # d) @ CHR ''.'' # (a # b # t)"
proof -
  have bol: "emailRegex = Seq Bol (rx_seq (email_body @ [Eol]))"
    by (simp add: emailRegex_def email_body_def)
  have "run emailRegex ([], e) \<noteq> []"
  proof (cases e)
    case Nil
    with assms show ?thesis by (simp add: rx_test_def)
  next
    case (Cons c s)
    with assms search_Bol [of "[c]" "rx_seq (email_body @ [Eol])" s] show ?thesis
      by (simp add: rx_test_def bol)
  qed
  then obtain st' where "st' \<in> set (run emailRegex ([], e))"
    by (cases "run emailRegex ([], e)") auto
  then show ?thesis by (rule emailRegex_run_shape)
qed

lemma rx_test_emailRegex_complete:
  assumes "list_all is_local (x # l)" "list_all is_domain (y # d)" "list_all is_alpha (a # b # t)"
  shows "rx_test emailRegex ((x # l) @ CHR ''@'' # (y # d) @ CHR ''.'' # (a # b # t))"
proof -
  obtain Z where "run (rx_seq (email_body @ [Eol]))
                 ([], (x # l) @ CHR ''@'' # (y # d) @ CHR ''.'' # (a # b # t))
            = (rev ((x # l) @ CHR ''@'' # (y # d) @ CHR ''.'' # (a # b # t)) @ [], []) # Z"
    using email_body_run [OF assms, of Eol "[]"] by auto
  then have "run emailRegex ([], (x # l) @ CHR ''@'' # (y # d) @ CHR ''.'' # (a # b # t)) \<noteq> []"
    by (simp add: emailRegex_def email_body_def run.simps(3) [of Bol])
  then show ?thesis by (simp add: rx_test_def)
qed

lemma matchAll_skip: "run r (p, c # s) = [] \<Longrightarrow> matchAll r (p, c # s) = matchAll r (c # p, s)"
  by (subst matchAll.simps) simp

lemma matchAll_end: "run r (p, []) = [] \<Longrightarrow> matchAll r (p, []) = []"
  by (subst matchAll.simps) simp

lemma matchAll_whole:
  assumes "run r (p, s) = (p', []) # Z" and "s \<noteq> []" and "run r (p', []) = []"
  shows "matchAll r (p, s) = [s]"
  using assms by (subst matchAll.simps) (simp add: matchAll_end)

lemma run_Seq_WordB: "run (Seq WordB r) st = (if at_word_boundary st then run r st else [])"
  by (simp add: run.simps(3))

lemma EMAIL_PATTERN_unf: "EMAIL_PATTERN = Seq WordB (rx_seq (email_body @ [WordB]))"
  by (simp add: EMAIL_PATTERN_def email_body_def)

lemma email_body_Nil: "run (rx_seq (email_body @ [K])) (p, []) = []"
  by (simp add: email_body_def rx_plus_def run_Seq_assoc run_Seq_Cls_Nil)

lemmas class_eval = is_local_def is_alpha_def is_digit_def is_word_def code_def

lemma prefix_no_match:
  "run EMAIL_PATTERN ([], ''contact: '' @ e) = []"
  "run EMAIL_PATTERN (''c'', ''ontact: '' @ e) = []"
  "run EMAIL_PATTERN (''oc'', ''ntact: '' @ e) = []"
  "run EMAIL_PATTERN (''noc'', ''tact: '' @ e) = []"
  "run EMAIL_PATTERN (''tnoc'', ''act: '' @ e) = []"
  "run EMAIL_PATTERN (''atnoc'', ''ct: '' @ e) = []"
  "run EMAIL_PATTERN (''catnoc'', ''t: '' @ e) = []"
  "run EMAIL_PATTERN (''tcatnoc'', '': '' @ e) = []"
  "run EMAIL_PATTERN ('':tcatnoc'', '' '' @ e) = []"
  by (simp_all add: EMAIL_PATTERN_unf run_Seq_WordB at_word_boundary_def email_body_def
        rx_plus_def rx_chr_def run_Seq_assoc run_Seq_Cls_Cons star_seq_Cons class_eval)

lemma matchAll_contact:
  assumes l: "list_all is_local (x # l)" and d: "list_all is_domain (y # d)"
    and t: "list_all is_alpha (a # b # t)" and w: "is_word x"
  shows "matchAll EMAIL_PATTERN ([], ''contact: '' @ (x # l) @ CHR ''@'' # (y # d) @ CHR ''.'' # (a # b # t))
           = [(x # l) @ CHR ''@'' # (y # d) @ CHR ''.'' # (a # b # t)]"
proof -
  let ?e = "(x # l) @ CHR ''@'' # (y # d) @ CHR ''.'' # (a # b # t)"
  let ?p = "'' :tcatnoc''"
  have skip: "matchAll EMAIL_PATTERN ([], ''contact: '' @ ?e) = matchAll EMAIL_PATTERN (?p, ?e)"
    using prefix_no_match [of ?e]
    by (simp add: matchAll_skip)
  obtain Z where body: "run (rx_seq (email_body @ [WordB])) (?p, ?e) = (rev ?e @ ?p, []) # Z"
    using email_body_run [OF l d t, of WordB ?p] WordB_fail WordB_end by blast
  have bnd: "at_word_boundary (?p, ?e)"
    using w by (simp add: at_word_boundary_def class_eval)
  have hit: "run EMAIL_PATTERN (?p, ?e) = (rev ?e @ ?p, []) # Z"
    using body bnd by (simp only: EMAIL_PATTERN_unf run_Seq_WordB if_True)
  have after: "run EMAIL_PATTERN (rev ?e @ ?p, []) = []"
    by (simp only: EMAIL_PATTERN_unf run_Seq_WordB email_body_Nil if_cancel)
  have "matchAll EMAIL_PATTERN (?p, ?e) = [?e]"
    by (rule matchAll_whole [OF hit _ after]) simp
  with skip show ?thesis by simp
qed

section \<open>Lower case and the checks of \<open>validateEmail\<close>\<close>

lemma eq_code: "(x = c) = (code x = code c)"
  by (simp add: code_def)

lemma code_lower:
  "code (lower_char x) =
     (if (65 \<le> code x \<and> code x \<le> 90) \<or> (192 \<le> code x \<and> code x \<le> 222 \<and> code x \<noteq> 215)
      then code x + 32 else code x)"
proof -
  have "(n + 32) mod 256 = n + 32" if "n \<le> 222" for n :: nat
    using that by simp
  then show ?thesis
    by (auto simp: lower_char_def code_def)
qed

lemma code_punct:
  "code CHR ''.'' = 46" "code CHR ''-'' = 45" "code CHR ''@'' = 64" "code CHR ''_'' = 95"
  "code CHR ''%'' = 37" "code CHR ''+'' = 43"
  by (simp_all add: code_def)

lemma lower_char_fix:
  "(lower_char x = CHR ''.'') = (x = CHR ''.'')"
  "(lower_char x = CHR ''-'') = (x = CHR ''-'')"
  "(lower_char x = CHR ''@'') = (x = CHR ''@'')"
  by (auto simp: eq_code [of _ "CHR ''.''"] eq_code [of _ "CHR ''-''"] eq_code [of _ "CHR ''@''"]
        code_punct code_lower split: if_splits)

lemma is_alpha_lower: "is_alpha (lower_char x) = is_alpha x"
  by (auto simp: is_alpha_def code_lower)

lemma is_digit_lower: "is_digit (lower_char x) = is_digit x"
  by (auto simp: is_digit_def code_lower)

lemma is_domain_lower: "is_domain (lower_char x) = is_domain x"
  by (simp add: is_domain_def is_alpha_lower is_digit_lower lower_char_fix)

lemma lower_char_fix2:
  "(lower_char x = CHR ''_'') = (x = CHR ''_'')"
  "(lower_char x = CHR ''%'') = (x = CHR ''%'')"
  "(lower_char x = CHR ''+'') = (x = CHR ''+'')"
  by (auto simp: eq_code [of _ "CHR ''_''"] eq_code [of _ "CHR ''%''"] eq_code [of _ "CHR ''+''"]
        code_punct code_lower split: if_splits)

lemma is_local_lower: "is_local (lower_char x) = is_local x"
  by (simp add: is_local_def is_alpha_lower is_digit_lower lower_char_fix lower_char_fix2)

lemma split_on_nonempty: "split_on c s \<noteq> []"
  by (induction s) (auto split: list.splits)

lemma split_on_map:
  assumes "\<And>x. (f x = c) = (x = c)"
  shows "split_on c (map f s) = map (map f) (split_on c s)"
proof (induction s)
  case Nil
  show ?case by simp
next
  case (Cons x s)
  then show ?case
    using assms split_on_nonempty [of c s] by (cases "split_on c s") auto
qed

lemma map_eq_const_list:
  assumes "\<And>x. (f x = c) = (x = c)" and "set t \<subseteq> {c}"
  shows "(map f ys = t) = (ys = t)"
  using assms(2)
proof (induction ys arbitrary: t)
  case Nil
  show ?case by auto
next
  case (Cons y ys)
  show ?case
  proof (cases t)
    case Nil
    then show ?thesis by simp
  next
    case (Cons u us)
    with Cons.prems have "u = c" "set us \<subseteq> {c}" by auto
    then show ?thesis using Cons.IH [of us] assms(1) [of y] Cons by auto
  qed
qed

lemma startsWith_map:
  assumes "\<And>x. (f x = c) = (x = c)" and "set t \<subseteq> {c}"
  shows "startsWith (map f s) t = startsWith s t"
  using map_eq_const_list [OF assms, of "take (length t) s"]
  by (simp add: startsWith_def take_map)

lemma endsWith_map:
  assumes "\<And>x. (f x = c) = (x = c)" and "set t \<subseteq> {c}"
  shows "endsWith (map f s) t = endsWith s t"
  using map_eq_const_list [OF assms, of "drop (length s - length t) s"]
  by (simp add: endsWith_def drop_map)

lemma includes_str_map:
  assumes "\<And>x. (f x = c) = (x = c)" and "set t \<subseteq> {c}"
  shows "includes_str (map f s) t = includes_str s t"
proof (induction s)
  case Nil
  show ?case by simp
next
  case (Cons x s)
  have "startsWith (map f (x # s)) t = startsWith (x # s) t"
    by (rule startsWith_map [OF assms])
  then show ?case using Cons by simp
qed

lemma list_ex_map: "list_ex P (map g xs) = list_ex (\<lambda>x. P (g x)) xs"
  by (induction xs) auto

lemma bad_domain_part_lower: "bad_domain_part (map lower_char s) = bad_domain_part s"
  by (simp add: bad_domain_part_def startsWith_map [of lower_char "CHR ''-''"]
        endsWith_map [of lower_char "CHR ''-''"] lower_char_fix)

lemma validateEmail_regex: "validateEmail e \<Longrightarrow> rx_test emailRegex e"
  by (simp add: validateEmail_def split: if_splits)

lemma validateEmail_lower:
  assumes r1: "rx_test emailRegex e" and r2: "rx_test emailRegex (map lower_char e)"
  shows "validateEmail (map lower_char e) = validateEmail e"
proof (cases "length (split_on CHR ''@'' e) = 2")
  case False
  then show ?thesis
    by (simp add: validateEmail_def split_on_map [of lower_char "CHR ''@''"] lower_char_fix Let_def)
next
  case True
  then obtain l0 d0 where sp: "split_on CHR ''@'' e = [l0, d0]"
    by (cases "split_on CHR ''@'' e"; cases "tl (split_on CHR ''@'' e)") auto
  have sp': "split_on CHR ''@'' (map lower_char e) = [map lower_char l0, map lower_char d0]"
    by (simp add: split_on_map [of lower_char "CHR ''@''"] lower_char_fix sp)
  have nonempty: "split_on CHR ''.'' d0 \<noteq> []" by (rule split_on_nonempty)
  show ?thesis
    unfolding validateEmail_def [of e] validateEmail_def [of "map lower_char e"] sp sp' Let_def
    using nonempty
    by (simp add: r1 r2 startsWith_map [of lower_char "CHR ''.''"] endsWith_map [of lower_char "CHR ''.''"]
          startsWith_map [of lower_char "CHR ''-''"] endsWith_map [of lower_char "CHR ''-''"]
          includes_str_map [of lower_char "CHR ''.''"] split_on_map [of lower_char "CHR ''.''"]
          lower_char_fix list_ex_map bad_domain_part_lower last_map)
qed

text \<open>
  C9 (as claimed, refuted): \<open>+a@b.co\<close> is accepted by \<open>validateEmail\<close>, but no word boundary
  stands between the space and the plus sign, so \<open>extractEmails\<close> finds \<open>a@b.co\<close> in
  \<open>contact: +a@b.co\<close> and not the address itself.
\<close>

theorem plus_address_not_found:
  "validateEmail ''+a@b.co'' \<and> extractEmails (''contact: '' @ ''+a@b.co'') = [''a@b.co'']
   \<and> toLowerCase ''+a@b.co'' \<notin> set (extractEmails (''contact: '' @ ''+a@b.co''))"
  by code_simp

text \<open>
  C9 (amended): for every string \<open>e\<close> accepted by \<open>validateEmail\<close> whose first character is
  a letter, a digit or an underscore, \<open>extractEmails\<close> of \<open>contact: \<close> followed by \<open>e\<close> is
  the one-element sequence of \<open>e\<close> in lower case, and so contains it.
\<close>

theorem extractEmails_finds_validated:
  assumes v: "validateEmail e" and w: "is_word (hd e)"
  shows "extractEmails (''contact: '' @ e) = [toLowerCase e]"
proof -
  from rx_test_emailRegex_shape [OF validateEmail_regex [OF v]]
  obtain x l y d a b t where l: "list_all is_local (x # l)" and d: "list_all is_domain (y # d)"
    and t: "list_all is_alpha (a # b # t)"
    and e: "e = (x # l) @ CHR ''@'' # (y # d) @ CHR ''.'' # (a # b # t)"
    by blast
  have wx: "is_word x" using w e by simp
  have m: "matchAll EMAIL_PATTERN ([], ''contact: '' @ e) = [e]"
    unfolding e by (rule matchAll_contact [OF l d t wx])
  have l': "list_all is_local (lower_char x # map lower_char l)"
    using l by (simp add: list_all_iff is_local_lower)
  have d': "list_all is_domain (lower_char y # map lower_char d)"
    using d by (simp add: list_all_iff is_domain_lower)
  have t': "list_all is_alpha (lower_char a # lower_char b # map lower_char t)"
    using t by (simp add: list_all_iff is_alpha_lower)
  have "rx_test emailRegex (map lower_char e)"
    using rx_test_emailRegex_complete [OF l' d' t'] by (simp add: e lower_char_fix [THEN iffD2])
  then have "validateEmail (toLowerCase e)"
    using validateEmail_lower [OF validateEmail_regex [OF v]] v by (simp add: toLowerCase_def)
  with m show ?thesis
    by (simp add: extractEmails_def add_email_def)
qed

theorem extractEmails_finds_validated_witness:
  "validateEmail ''Joao.Silva@Email.com'' \<and> is_word (hd ''Joao.Silva@Email.com'')
   \<and> extractEmails (''contact: '' @ ''Joao.Silva@Email.com'') = [''joao.silva@email.com'']"
proof -
  have a: "validateEmail ''Joao.Silva@Email.com''" by code_simp
  have b: "is_word (hd ''Joao.Silva@Email.com'')" by code_simp
  have c: "toLowerCase ''Joao.Silva@Email.com'' = ''joao.silva@email.com''" by code_simp
  show ?thesis using a b c extractEmails_finds_validated [OF a b] by simp
qed

end
